theory Spec2Isabelle
  imports Main "HOL-Library.Word"
begin

section \<open>Arduino core functions the two sketches call\<close>

text \<open>
  Both sketches target the Arduino Uno/Nano (AVR): \<open>long\<close> and \<open>unsigned long\<close> are
  32 bits wide, a \<open>byte\<close> is one \<open>char\<close> of HOL. An Arduino \<open>String\<close> is modelled by the
  list of its \<open>len\<close> characters; the functions of the core library (WString, Stream,
  Print, avr-libc) are written out here as the library defines them, since the sketches'
  behaviour depends on them.
\<close>

type_synonym long = "32 word"
type_synonym ulong = "32 word"

definition NUL :: char where
  "NUL = CHR 0x00"

text \<open>C's \<open>isspace\<close>: space, and the control characters 9 (tab) to 13 (carriage return).\<close>

definition isspace :: "char \<Rightarrow> bool" where
  "isspace c = (c = CHR '' '' \<or> (9 \<le> (of_char c :: nat) \<and> (of_char c :: nat) \<le> 13))"

definition isdigit :: "char \<Rightarrow> bool" where
  "isdigit c = (48 \<le> (of_char c :: nat) \<and> (of_char c :: nat) \<le> 57)"

text \<open>The characters a C function sees behind a \<open>char *\<close>: up to the first NUL.\<close>

definition c_str :: "string \<Rightarrow> string" where
  "c_str s = takeWhile (\<lambda>c. c \<noteq> NUL) s"

text \<open>\<open>String::trim\<close>: leading and trailing \<open>isspace\<close> characters are removed.\<close>

definition trim :: "string \<Rightarrow> string" where
  "trim s = rev (dropWhile isspace (rev (dropWhile isspace s)))"

text \<open>\<open>String::startsWith\<close> with a one-character literal such as \<open>"["\<close>.\<close>

definition startsWith :: "string \<Rightarrow> string \<Rightarrow> bool" where
  "startsWith s p = (length p \<le> length s \<and> take (length p) s = p)"

text \<open>
  \<open>String == const char *\<close> is \<open>strcmp\<close> on the two character buffers (an empty String
  equals the empty literal only).
\<close>

definition equals :: "string \<Rightarrow> string \<Rightarrow> bool" where
  "equals s lit = (c_str s = c_str lit)"

text \<open>
  \<open>String::toInt\<close> is avr-libc's \<open>atol\<close>: leading white space is skipped, an optional
  sign is read, then decimal digits are accumulated in a 32-bit register with no overflow
  check, up to the first character that is no digit. No digit at all gives 0.
\<close>

fun atol_digits :: "long \<Rightarrow> string \<Rightarrow> long" where
  "atol_digits acc [] = acc"
| "atol_digits acc (c # cs) =
     (if isdigit c then atol_digits (acc * 10 + of_nat (of_char c - 48)) cs else acc)"

definition atol :: "string \<Rightarrow> long" where
  "atol s =
     (case dropWhile isspace s of
        [] \<Rightarrow> 0
      | c # cs \<Rightarrow>
          if c = CHR ''-'' then - atol_digits 0 cs
          else if c = CHR ''+'' then atol_digits 0 cs
          else atol_digits 0 (c # cs))"

definition toInt :: "string \<Rightarrow> long" where
  "toInt s = atol s"

text \<open>Decimal rendering, as \<open>ltoa\<close>, \<open>String(long)\<close> and \<open>Print::print(long)\<close> produce it.\<close>

definition digit_char :: "nat \<Rightarrow> char" where
  "digit_char d = char_of (of_char CHR ''0'' + d)"

function dec_nat :: "nat \<Rightarrow> string" where
  "dec_nat n = (if 10 \<le> n then dec_nat (n div 10) @ [digit_char (n mod 10)] else [digit_char n])"
  by pat_completeness auto
termination
  by (relation "measure id") auto

declare dec_nat.simps [simp del]

definition ltoa :: "int \<Rightarrow> string" where
  "ltoa i = (if i < 0 then CHR ''-'' # dec_nat (nat (- i)) else dec_nat (nat i))"

definition String_long :: "long \<Rightarrow> string" where
  "String_long v = ltoa (sint v)"

text \<open>
  \<open>String::substring(left, right)\<close> copies \<open>buffer + left\<close> as a C string after putting a
  NUL at \<open>right\<close>, so the copy ends at an embedded NUL.
\<close>

definition substring :: "string \<Rightarrow> nat \<Rightarrow> nat \<Rightarrow> string" where
  "substring s left right =
     (let l = min left right; r = min (max left right) (length s)
      in if length s \<le> l then [] else c_str (take (r - l) (drop l s)))"

text \<open>
  \<open>String::getBytes(buf, bufsize)\<close>: nothing for \<open>bufsize = 0\<close>; for an empty String only
  \<open>buf[0] = 0\<close>; otherwise \<open>n = min (bufsize - 1) len\<close> characters go to \<open>buf\<close> by \<open>strncpy\<close>
  (which fills with NUL after the source's end) and \<open>buf[n] = 0\<close>. The last byte of the
  buffer is thus reserved for the terminator.
\<close>

definition strncpy :: "string \<Rightarrow> string \<Rightarrow> nat \<Rightarrow> string" where
  "strncpy dest src n =
     (let cs = take n (c_str src) in cs @ replicate (n - length cs) NUL @ drop n dest)"

definition getBytes :: "string \<Rightarrow> string \<Rightarrow> nat \<Rightarrow> string" where
  "getBytes s buf bufsize =
     (if bufsize = 0 then buf
      else if length s = 0 then buf[0 := NUL]
      else let n = min (bufsize - 1) (length s) in (strncpy buf s n)[n := NUL])"


section \<open>The device: tag, serial output and reader calls\<close>

text \<open>
  The MFRC522 library's status codes. The sketches only compare with \<open>STATUS_OK\<close>.
\<close>

datatype StatusCode =
    STATUS_OK | STATUS_ERROR | STATUS_COLLISION | STATUS_TIMEOUT | STATUS_NO_ROOM
  | STATUS_INTERNAL_ERROR | STATUS_INVALID | STATUS_CRC_WRONG | STATUS_MIFARE_NACK

text \<open>Every call to the reader and every \<open>delay\<close> is recorded, in order.\<close>

datatype hw_event =
    HaltA
  | StopCrypto1
  | Delay nat
  | Authenticate nat StatusCode
  | Read nat StatusCode
  | Write nat string StatusCode

text \<open>
  What both sketches act on: the presented tag (block number to its 16 bytes), the text
  sent on the serial link (\<open>sent\<close>: the lines completed by a \<open>println\<close>, without the line
  end; \<open>pending\<close>: what \<open>print\<close> has sent since), the record of reader calls, and the global
  \<open>card_status\<close>.
\<close>

record device =
  tag :: "nat \<Rightarrow> string"
  sent :: "string list"
  pending :: string
  hw :: "hw_event list"
  card_status :: StatusCode

definition print :: "string \<Rightarrow> 'a device_scheme \<Rightarrow> 'a device_scheme" where
  "print x s = s\<lparr>pending := pending s @ x\<rparr>"

definition println :: "string \<Rightarrow> 'a device_scheme \<Rightarrow> 'a device_scheme" where
  "println x s = s\<lparr>sent := sent s @ [pending s @ x], pending := []\<rparr>"

definition PICC_HaltA :: "'a device_scheme \<Rightarrow> 'a device_scheme" where
  "PICC_HaltA s = s\<lparr>hw := hw s @ [HaltA]\<rparr>"

definition PCD_StopCrypto1 :: "'a device_scheme \<Rightarrow> 'a device_scheme" where
  "PCD_StopCrypto1 s = s\<lparr>hw := hw s @ [StopCrypto1]\<rparr>"

definition delay :: "nat \<Rightarrow> 'a device_scheme \<Rightarrow> 'a device_scheme" where
  "delay ms s = s\<lparr>hw := hw s @ [Delay ms]\<rparr>"

text \<open>\<open>card_status = mfrc522.PCD_Authenticate(...)\<close>, the reader answering \<open>st\<close>.\<close>

definition PCD_Authenticate :: "nat \<Rightarrow> StatusCode \<Rightarrow> 'a device_scheme \<Rightarrow> 'a device_scheme" where
  "PCD_Authenticate block st s = s\<lparr>hw := hw s @ [Authenticate block st], card_status := st\<rparr>"

text \<open>\<open>card_status = mfrc522.MIFARE_Read(...)\<close>; on \<open>STATUS_OK\<close> the buffer holds the block.\<close>

definition MIFARE_Read :: "nat \<Rightarrow> StatusCode \<Rightarrow> 'a device_scheme \<Rightarrow> 'a device_scheme" where
  "MIFARE_Read block st s = s\<lparr>hw := hw s @ [Read block st], card_status := st\<rparr>"

text \<open>
  \<open>card_status = mfrc522.MIFARE_Write(block, buffer, 16)\<close>: the first 16 bytes of the
  buffer are sent; the tag's block changes when the reader answers \<open>STATUS_OK\<close>.
\<close>

definition MIFARE_Write :: "nat \<Rightarrow> string \<Rightarrow> StatusCode \<Rightarrow> 'a device_scheme \<Rightarrow> 'a device_scheme" where
  "MIFARE_Write block buffer st s =
     s\<lparr>tag := (if st = STATUS_OK then (tag s)(block := take 16 buffer) else tag s),
       hw := hw s @ [Write block (take 16 buffer) st],
       card_status := st\<rparr>"

text \<open>UTF-8 bytes of the symbols that start some of the sketches' messages.\<close>

definition cross_mark :: string where
  "cross_mark = [CHR 0xE2, CHR 0x9D, CHR 0x8C]"

definition warning_sign :: string where
  "warning_sign = [CHR 0xE2, CHR 0x9A, CHR 0xA0, CHR 0xEF, CHR 0xB8, CHR 0x8F]"

definition check_mark :: string where
  "check_mark = [CHR 0xE2, CHR 0x9C, CHR 0x85]"

definition antenna_bars :: string where
  "antenna_bars = [CHR 0xF0, CHR 0x9F, CHR 0x93, CHR 0xB6]"

definition arrows_button :: string where
  "arrows_button = [CHR 0xF0, CHR 0x9F, CHR 0x94, CHR 0x84]"

definition open_lock :: string where
  "open_lock = [CHR 0xF0, CHR 0x9F, CHR 0x94, CHR 0x93]"

text \<open>
  The reader's answers to \<open>PICC_IsNewCardPresent()\<close> and \<open>PICC_ReadCardSerial()\<close>.
\<close>

record reader =
  PICC_IsNewCardPresent :: bool
  PICC_ReadCardSerial :: bool

text \<open>A local 16-byte array before anything is stored in it: whatever the stack holds.\<close>

definition uninitialised :: "(nat \<Rightarrow> char) \<Rightarrow> string" where
  "uninitialised mem = map mem [0..<16]"

section \<open>process\_payment.ino\<close>

text \<open>The sketch's globals, on top of the device.\<close>

record payment = device +
  awaitingUpdate :: bool
  sentReady :: bool
  currentPlate :: string
  currentBalance :: long
  readySentTime :: ulong

definition RESPONSE_TIMEOUT :: ulong where
  "RESPONSE_TIMEOUT = 10000"

text \<open>
  What the outside world answers during one run of \<open>loop\<close>: the reader's answers to card
  detection, to the authentications and reads of \<open>readBlockData\<close> (by block) and to the
  authentication and write of \<open>writeBlockData\<close>; the value of \<open>millis()\<close> at line 90 and at
  line 96; whether \<open>Serial.available()\<close> is non-zero and the String that
  \<open>Serial.readStringUntil('\n')\<close> then returns; and the bytes found in the uninitialised
  16-byte \<open>buffer\<close> of \<open>writeBlockData\<close> (by index).
\<close>

record pay_env = reader +
  read_auth :: "nat \<Rightarrow> StatusCode"
  read_status :: "nat \<Rightarrow> StatusCode"
  write_auth :: StatusCode
  write_status :: StatusCode
  millis_ready :: ulong
  millis_poll :: ulong
  serial_available :: bool
  serial_line :: string
  stack_buffer :: "nat \<Rightarrow> char"

text \<open>Lines 174 to 180: the 16 bytes read become a String, which is trimmed.\<close>

definition block_to_String :: "string \<Rightarrow> string" where
  "block_to_String buffer = trim (take 16 buffer)"

definition readBlockData ::
  "StatusCode \<Rightarrow> StatusCode \<Rightarrow> nat \<Rightarrow> string \<Rightarrow> 'a device_scheme \<Rightarrow> string \<times> 'a device_scheme" where
  "readBlockData auth_st read_st blockNumber label s =
     (let s = PCD_Authenticate blockNumber auth_st s in
      if card_status s \<noteq> STATUS_OK then
        (''[Auth Fail]'', println label (print (cross_mark @ '' Auth failed for '') s))
      else
        let s = MIFARE_Read blockNumber read_st s in
        if card_status s \<noteq> STATUS_OK then
          (''[Read Fail]'', println label (print (cross_mark @ '' Read failed for '') s))
        else (block_to_String (tag s blockNumber), s))"

text \<open>The 16-byte buffer \<open>writeBlockData\<close> fills from \<open>data\<close> (lines 189 to 192).\<close>

definition write_buffer :: "string \<Rightarrow> string \<Rightarrow> string" where
  "write_buffer buffer0 data =
     (let data = trim data;
          data = data @ replicate (16 - length data) CHR '' ''
      in getBytes (substring data 0 16) buffer0 16)"

definition writeBlockData ::
  "StatusCode \<Rightarrow> StatusCode \<Rightarrow> string \<Rightarrow> nat \<Rightarrow> string \<Rightarrow> 'a device_scheme \<Rightarrow> 'a device_scheme" where
  "writeBlockData auth_st write_st buffer0 blockNumber data s =
     (let buffer = write_buffer buffer0 data;
          s = PCD_Authenticate blockNumber auth_st s
      in if card_status s \<noteq> STATUS_OK then println (cross_mark @ '' Auth failed on write'') s
         else
           let s = MIFARE_Write blockNumber buffer write_st s in
           if card_status s \<noteq> STATUS_OK then println (cross_mark @ '' Write failed'') s
           else s)"

text \<open>Lines 87 to 91: the READY signal.\<close>

definition send_ready :: "pay_env \<Rightarrow> payment \<Rightarrow> payment" where
  "send_ready e s =
     (if awaitingUpdate s \<and> \<not> sentReady s then
        (println ''READY'' s)\<lparr>sentReady := True, readySentTime := millis_ready e\<rparr>
      else s)"

text \<open>Lines 107 to 144: a response of the PC is read and handled.\<close>

definition process_response :: "pay_env \<Rightarrow> payment \<Rightarrow> payment" where
  "process_response e s =
     (let response = trim (serial_line e);
          s = println response (print ''[RECEIVED FROM PC]: '' s);
          s = (if equals response ''I'' then println ''[DENIED] Insufficient balance'' s
               else
                 let s = println [CHR 0x27] (print response (print (''[DEBUG] Cleaned response: '' @ [CHR 0x27]) s));
                     response = trim response;
                     newBalance = toInt response;
                     s = print (ltoa (sint newBalance)) s
                 in if 0 \<le>s newBalance then
                      let s = println ''[WRITING] New balance to card...'' s;
                          s = writeBlockData (write_auth e) (write_status e) (uninitialised (stack_buffer e)) 4
                                (String_long newBalance) s;
                          s = println ''DONE'' s;
                          s = print ''[UPDATED] New Balance: '' s
                      in println (ltoa (sint newBalance)) s
                    else println ''[ERROR] Invalid new balance received.'' s);
          s = s\<lparr>awaitingUpdate := False, sentReady := False\<rparr>
      in delay 2000 (PCD_StopCrypto1 (PICC_HaltA s)))"

text \<open>Lines 94 to 145: the timeout, then the PC's response.\<close>

definition wait_response :: "pay_env \<Rightarrow> payment \<Rightarrow> payment" where
  "wait_response e s =
     (if awaitingUpdate s \<and> sentReady s then
        if millis_poll e - readySentTime s > RESPONSE_TIMEOUT then
          let s = println ''[TIMEOUT] No response from PC. Resetting.'' s;
              s = s\<lparr>awaitingUpdate := False, sentReady := False\<rparr>
          in delay 1000 (PCD_StopCrypto1 (PICC_HaltA s))
        else if serial_available e then process_response e s
        else s
      else s)"

text \<open>
  \<open>setup\<close> and the initial values of the globals (lines 29 to 35), for a tag \<open>t\<close> that
  will be presented.
\<close>

definition payment_setup :: "(nat \<Rightarrow> string) \<Rightarrow> payment" where
  "payment_setup t =
     (let s = \<lparr>tag = t, sent = [], pending = [], hw = [], card_status = STATUS_OK,
               awaitingUpdate = False, sentReady = False, currentPlate = [],
               currentBalance = 0, readySentTime = 0\<rparr>;
          s = println ''==== PAYMENT MODE RFID ===='' s
      in println ''Place your card near the reader...'' s)"

text \<open>
  \<open>loop\<close>: the card reading phase (lines 60 to 84), then the two blocks above. The
  assignment of line 64 gives \<open>currentPlate\<close> the String that \<open>readBlockData\<close> returned. (On
  the AVR core an assignment into a String that already owns a buffer large enough
  copies with \<open>strcpy\<close>, which stops at a NUL byte: from the second card on, when block 2
  holds a NUL byte, the characters of \<open>currentPlate\<close> after it are what the buffer held
  before. Its length and its first character are in every case the ones given here.)
\<close>

definition payment_loop :: "pay_env \<Rightarrow> payment \<Rightarrow> payment" where
  "payment_loop e s =
     (if \<not> awaitingUpdate s then
        if \<not> PICC_IsNewCardPresent e \<or> \<not> PICC_ReadCardSerial e then s
        else
          let (plate, s) = readBlockData (read_auth e 2) (read_status e 2) 2 ''Car Plate'' s;
              s = s\<lparr>currentPlate := plate\<rparr>;
              (balanceStr, s) = readBlockData (read_auth e 4) (read_status e 4) 4 ''Balance'' s
          in if startsWith (currentPlate s) ''['' \<or> startsWith balanceStr ''['' then
               let s = println (warning_sign @ '' Invalid card data. Try again.'') s
               in delay 2000 (PCD_StopCrypto1 (PICC_HaltA s))
             else
               let s = s\<lparr>currentBalance := toInt balanceStr\<rparr>;
                   s = print (currentPlate s) s;
                   s = print '','' s;
                   s = println balanceStr s;
                   s = s\<lparr>awaitingUpdate := True, sentReady := False\<rparr>
               in wait_response e (send_ready e s)
      else wait_response e (send_ready e s))"

text \<open>The sketch runs \<open>loop\<close> again and again; \<open>run\<close> is a finite number of these runs.\<close>

fun run :: "pay_env list \<Rightarrow> payment \<Rightarrow> payment" where
  "run [] s = s"
| "run (e # es) s = run es (payment_loop e s)"


section \<open>top\_up.ino\<close>

text \<open>
  The operator's input is a sequence of answers of the serial port. \<open>Byte c\<close>: the next
  byte is there when it is asked for. \<open>Wait\<close>: no byte is there now, the next one arrives
  before the timeout set by \<open>Serial.setTimeout(20000L)\<close> has passed. \<open>Timeout\<close>: no byte
  is there now, and none arrives before that timeout has passed. The end of the list is
  the end of what has been observed: a read that reaches it is still waiting.
\<close>

datatype serial_event = Byte char | Wait | Timeout

text \<open>
  \<open>Stream::readBytesUntil(terminator, buffer, length)\<close>: bytes are stored until
  \<open>length\<close> of them are, or \<open>timedRead()\<close> times out, or the terminator is read (and dropped).
  The result is the number of bytes stored, the buffer and the input left; \<open>None\<close> when
  the observed input ends first.
\<close>

fun readBytesUntil_from ::
  "nat \<Rightarrow> char \<Rightarrow> string \<Rightarrow> nat \<Rightarrow> serial_event list \<Rightarrow> (nat \<times> string \<times> serial_event list) option" where
  "readBytesUntil_from index terminator buffer len [] =
     (if index < len then None else Some (index, buffer, []))"
| "readBytesUntil_from index terminator buffer len (ev # rest) =
     (if index < len then
        (case ev of
           Timeout \<Rightarrow> Some (index, buffer, rest)
         | Wait \<Rightarrow> readBytesUntil_from index terminator buffer len rest
         | Byte c \<Rightarrow>
             if c = terminator then Some (index, buffer, rest)
             else readBytesUntil_from (Suc index) terminator (buffer[index := c]) len rest)
      else Some (index, buffer, ev # rest))"

definition readBytesUntil ::
  "char \<Rightarrow> string \<Rightarrow> nat \<Rightarrow> serial_event list \<Rightarrow> (nat \<times> string \<times> serial_event list) option" where
  "readBytesUntil terminator buffer len input = readBytesUntil_from 0 terminator buffer len input"

text \<open>\<open>Serial.available()\<close> is non-zero when a byte is there now.\<close>

fun available :: "serial_event list \<Rightarrow> bool" where
  "available (Byte c # rest) = True"
| "available input = False"

text \<open>\<open>flushSerial\<close>: \<open>while (Serial.available()) Serial.read();\<close>\<close>

fun flushSerial :: "serial_event list \<Rightarrow> serial_event list" where
  "flushSerial (Byte c # rest) = flushSerial rest"
| "flushSerial input = input"

text \<open>\<open>padBuffer\<close>: \<open>buffer[i] = ' '\<close> for \<open>i\<close> from \<open>len\<close> to 15.\<close>

definition padBuffer :: "string \<Rightarrow> nat \<Rightarrow> string" where
  "padBuffer buffer len = fold (\<lambda>i b. b[i := CHR '' '']) [len..<16] buffer"

text \<open>
  \<open>writeBytesToBlock\<close>. The text that the MFRC522 library's \<open>GetStatusCodeName\<close> gives
  for a status code is the parameter \<open>status_name\<close>.
\<close>

definition writeBytesToBlock ::
  "(StatusCode \<Rightarrow> string) \<Rightarrow> StatusCode \<Rightarrow> StatusCode \<Rightarrow> nat \<Rightarrow> string
     \<Rightarrow> 'a device_scheme \<Rightarrow> 'a device_scheme" where
  "writeBytesToBlock status_name auth_st write_st block buff s =
     (let s = PCD_Authenticate block auth_st s in
      if card_status s \<noteq> STATUS_OK then
        println (status_name (card_status s)) (print (cross_mark @ '' Authentication failed: '') s)
      else
        let s = println (open_lock @ '' Authentication success.'') s;
            s = MIFARE_Write block buff write_st s
        in if card_status s \<noteq> STATUS_OK then
             println (status_name (card_status s)) (print (cross_mark @ '' Write failed: '') s)
           else println (check_mark @ '' Data written successfully.'') s)"

text \<open>
  Where a prompt loop stands when the observed input is used up (\<open>Reading\<close>: it waits in
  \<open>readBytesUntil\<close>), or what it leaves the loop with (\<open>Accepted\<close>: the padded buffer,
  the input left and the device).
\<close>

datatype prompt_result =
    Reading device
  | Accepted string "serial_event list" device

definition plate_prompt_text :: string where
  "plate_prompt_text =
     ''Enter car plate number (must be exactly 7 characters, e.g., RAG234H), end with #:''"

definition balance_prompt_text :: string where
  "balance_prompt_text = ''Enter balance (max 16 characters), end with #:''"

definition plate_rejected :: "nat \<Rightarrow> device \<Rightarrow> device" where
  "plate_rejected len s =
     (let s = print (cross_mark @ '' Invalid input length (got '') s;
          s = print (dec_nat len) s
      in println ('' characters). Try again.'' @ [CHR 0x0A]) s)"

definition balance_rejected :: "device \<Rightarrow> device" where
  "balance_rejected s = println (cross_mark @ '' Invalid balance input. Try again.'' @ [CHR 0x0A]) s"

lemma readBytesUntil_from_shorter:
  "readBytesUntil_from index terminator buffer len input = Some (n, b, rest) \<Longrightarrow> index < len
     \<Longrightarrow> length rest < length input"
proof (induction input arbitrary: index buffer)
  case Nil
  then show ?case by simp
next
  case (Cons ev input)
  show ?case
  proof (cases ev)
    case Timeout
    with Cons.prems show ?thesis by simp
  next
    case Wait
    with Cons.prems
    have "readBytesUntil_from index terminator buffer len input = Some (n, b, rest)"
      by simp
    from Cons.IH [OF this Cons.prems(2)] show ?thesis by simp
  next
    case (Byte c)
    show ?thesis
    proof (cases "c = terminator")
      case True
      with Cons.prems Byte show ?thesis by simp
    next
      case False
      with Cons.prems Byte
      have step: "readBytesUntil_from (Suc index) terminator (buffer[index := c]) len input
                    = Some (n, b, rest)"
        by simp
      show ?thesis
      proof (cases "Suc index < len")
        case True
        from Cons.IH [OF step True] show ?thesis by simp
      next
        case False
        with step have "rest = input" by (cases input) simp_all
        then show ?thesis by simp
      qed
    qed
  qed
qed

lemma flushSerial_length: "length (flushSerial input) \<le> length input"
  by (induction input rule: flushSerial.induct) simp_all

text \<open>Lines 69 to 83: the plate is asked for until an input of 7 bytes is read.\<close>

function plate_prompt :: "string \<Rightarrow> serial_event list \<Rightarrow> device \<Rightarrow> prompt_result" where
  "plate_prompt carPlateBuff input s =
     (let s = println plate_prompt_text s in
      case readBytesUntil CHR ''#'' carPlateBuff 16 input of
        None \<Rightarrow> Reading s
      | Some (len, carPlateBuff, input) \<Rightarrow>
          if len = 7 then Accepted (padBuffer carPlateBuff len) input s
          else plate_prompt carPlateBuff (flushSerial input) (plate_rejected len s))"
  by pat_completeness auto
termination
proof (relation "measure (\<lambda>(b, input, s). length input)")
  show "wf (measure (\<lambda>(b, input, s). length input))" by simp
next
  fix carPlateBuff :: string and input :: "serial_event list" and s x x2 len y b rest
  assume "readBytesUntil CHR ''#'' carPlateBuff 16 input = Some x2"
    and "(len, y) = x2" and "(b, rest) = y"
  then have "readBytesUntil_from 0 CHR ''#'' carPlateBuff 16 input = Some (len, b, rest)"
    by (simp add: readBytesUntil_def)
  then have "length rest < length input"
    by (rule readBytesUntil_from_shorter) simp
  with flushSerial_length [of rest]
  show "((b, flushSerial rest, plate_rejected len x), carPlateBuff, input, s)
          \<in> measure (\<lambda>(b, input, s). length input)"
    by simp
qed

text \<open>Lines 86 to 98: the balance is asked for until an input of 1 to 16 bytes is read.\<close>

function balance_prompt :: "string \<Rightarrow> serial_event list \<Rightarrow> device \<Rightarrow> prompt_result" where
  "balance_prompt balanceBuff input s =
     (let s = println balance_prompt_text s in
      case readBytesUntil CHR ''#'' balanceBuff 16 input of
        None \<Rightarrow> Reading s
      | Some (len, balanceBuff, input) \<Rightarrow>
          if 0 < len \<and> len \<le> 16 then Accepted (padBuffer balanceBuff len) input s
          else balance_prompt balanceBuff (flushSerial input) (balance_rejected s))"
  by pat_completeness auto
termination
proof (relation "measure (\<lambda>(b, input, s). length input)")
  show "wf (measure (\<lambda>(b, input, s). length input))" by simp
next
  fix balanceBuff :: string and input :: "serial_event list" and s x x2 len y b rest
  assume "readBytesUntil CHR ''#'' balanceBuff 16 input = Some x2"
    and "(len, y) = x2" and "(b, rest) = y"
  then have "readBytesUntil_from 0 CHR ''#'' balanceBuff 16 input = Some (len, b, rest)"
    by (simp add: readBytesUntil_def)
  then have "length rest < length input"
    by (rule readBytesUntil_from_shorter) simp
  with flushSerial_length [of rest]
  show "((b, flushSerial rest, balance_rejected x), balanceBuff, input, s)
          \<in> measure (\<lambda>(b, input, s). length input)"
    by simp
qed


declare plate_prompt.simps [simp del] balance_prompt.simps [simp del]

text \<open>
  What the outside world answers during one run of \<open>loop\<close> of this sketch: card detection,
  the reader's answers to the authentication and the write of \<open>writeBytesToBlock\<close> (by
  block), the bytes found in the two uninitialised buffers, and the bytes that follow
  each buffer in memory (\<open>Serial.println((char*)carPlateBuff)\<close> prints up to the first NUL,
  and the 16-byte buffers hold none of their own unless the operator sent one), and the
  MFRC522 library's table of status texts.
\<close>

record top_env = reader +
  GetStatusCodeName :: "StatusCode \<Rightarrow> string"
  block_auth :: "nat \<Rightarrow> StatusCode"
  block_write :: "nat \<Rightarrow> StatusCode"
  carPlateBuff_stack :: "nat \<Rightarrow> char"
  balanceBuff_stack :: "nat \<Rightarrow> char"
  after_carPlateBuff :: string
  after_balanceBuff :: string

text \<open>
  \<open>loop\<close> either returns (\<open>Returned\<close>, with the input left), or is still inside one of the
  two prompt loops when the observed input is used up (\<open>Prompting\<close>).
\<close>

datatype loop_result =
    Prompting device
  | Returned device "serial_event list"

text \<open>
  \<open>loop\<close> of top\_up.ino. The key bytes set at lines 54 to 56 only reach the reader, whose
  answers are given by the environment.
\<close>

definition top_up_loop :: "top_env \<Rightarrow> serial_event list \<Rightarrow> device \<Rightarrow> loop_result" where
  "top_up_loop e input s =
     (if \<not> PICC_IsNewCardPresent e then Returned s input
      else if \<not> PICC_ReadCardSerial e then Returned s input
      else
        let s = println (antenna_bars @ '' Card detected!'') s in
        case plate_prompt (uninitialised (carPlateBuff_stack e)) input s of
          Reading s \<Rightarrow> Prompting s
        | Accepted carPlateBuff input s \<Rightarrow>
            (case balance_prompt (uninitialised (balanceBuff_stack e)) input s of
               Reading s \<Rightarrow> Prompting s
             | Accepted balanceBuff input s \<Rightarrow>
                 let carPlateBlock = 2;
                     balanceBlock = 4;
                     s = writeBytesToBlock (GetStatusCodeName e) (block_auth e carPlateBlock)
                           (block_write e carPlateBlock) carPlateBlock carPlateBuff s;
                     s = writeBytesToBlock (GetStatusCodeName e) (block_auth e balanceBlock)
                           (block_write e balanceBlock) balanceBlock balanceBuff s;
                     s = println [] s;
                     s = print (check_mark @ '' Car Plate written to block '') s;
                     s = print (dec_nat carPlateBlock) s;
                     s = print '': '' s;
                     s = println (c_str (carPlateBuff @ after_carPlateBuff e)) s;
                     s = print (check_mark @ '' Balance written to block '') s;
                     s = print (dec_nat balanceBlock) s;
                     s = print '': '' s;
                     s = println (c_str (balanceBuff @ after_balanceBuff e)) s;
                     s = println (arrows_button @ '' Please remove the card to write again.'') s;
                     s = println (''--------------------------'' @ [CHR 0x0A]) s;
                     s = PICC_HaltA s;
                     s = PCD_StopCrypto1 s
                 in Returned (delay 2000 s) input))"

text \<open>\<open>setup\<close> of top\_up.ino, for a tag \<open>t\<close> that will be presented.\<close>

definition top_up_setup :: "(nat \<Rightarrow> string) \<Rightarrow> device" where
  "top_up_setup t =
     (let s = \<lparr>tag = t, sent = [], pending = [], hw = [], card_status = STATUS_OK\<rparr>;
          s = println ''==== CARD REGISTRATION ===='' s;
          s = println ''Place your RFID card near the reader...'' s
      in println [] s)"


section \<open>Auxiliary notions\<close>

text \<open>A String that \<open>trim\<close> leaves as it is: empty, or with no white space at either end.\<close>

definition trimmed :: "string \<Rightarrow> bool" where
  "trimmed s = (s = [] \<or> (\<not> isspace (hd s) \<and> \<not> isspace (last s)))"

text \<open>
  A payment session: the runs of \<open>loop\<close> from the one given first up to and including the
  first one that leaves \<open>awaitingUpdate\<close> false (or as far as the given runs go).
\<close>

fun session :: "pay_env list \<Rightarrow> payment \<Rightarrow> payment" where
  "session [] s = s"
| "session (e # es) s =
     (let s' = payment_loop e s in if awaitingUpdate s' then session es s' else s')"

text \<open>The device a prompt loop has reached, and the buffer it has accepted, if any.\<close>

fun prompt_device :: "prompt_result \<Rightarrow> device" where
  "prompt_device (Reading s) = s"
| "prompt_device (Accepted b rest s) = s"

fun prompt_buffer :: "prompt_result \<Rightarrow> string option" where
  "prompt_buffer (Reading s) = None"
| "prompt_buffer (Accepted b rest s) = Some b"

text \<open>Whether \<open>loop\<close> of top\_up.ino has returned, and the device it has reached.\<close>

fun returned :: "loop_result \<Rightarrow> bool" where
  "returned (Prompting s) = False"
| "returned (Returned s rest) = True"

fun loop_device :: "loop_result \<Rightarrow> device" where
  "loop_device (Prompting s) = s"
| "loop_device (Returned s rest) = s"

section \<open>Example inputs\<close>

text \<open>
  The tag of the scenarios: plate \<open>RAG234H\<close> in block 2 and balance \<open>5000\<close> in block 4, as
  top\_up.ino stores them.
\<close>

definition example_tag :: "nat \<Rightarrow> string" where
  "example_tag = (\<lambda>_. replicate 16 NUL)(2 := ''RAG234H         '', 4 := ''5000            '')"

text \<open>A run of \<open>loop\<close> in which the card is detected and read, and the PC is silent.\<close>

definition card_shown :: pay_env where
  "card_shown =
     \<lparr>PICC_IsNewCardPresent = True, PICC_ReadCardSerial = True,
      read_auth = (\<lambda>_. STATUS_OK), read_status = (\<lambda>_. STATUS_OK),
      write_auth = STATUS_OK, write_status = STATUS_OK,
      millis_ready = 5000, millis_poll = 5001,
      serial_available = False, serial_line = [], stack_buffer = (\<lambda>_. NUL)\<rparr>"

text \<open>A run of \<open>loop\<close> at time 6000 in which the PC's line \<open>l\<close> is there.\<close>

definition host_says :: "string \<Rightarrow> pay_env" where
  "host_says l = card_shown\<lparr>PICC_IsNewCardPresent := False, millis_poll := 6000,
     serial_available := True, serial_line := l\<rparr>"

text \<open>A run of \<open>loop\<close> at time \<open>now\<close> in which nothing is there.\<close>

definition silent :: "ulong \<Rightarrow> pay_env" where
  "silent now = card_shown\<lparr>PICC_IsNewCardPresent := False, millis_poll := now\<rparr>"

text \<open>A run of \<open>loop\<close> in which the card is detected and block 2 cannot be authenticated.\<close>

definition auth2_fails :: pay_env where
  "auth2_fails = card_shown\<lparr>read_auth := (\<lambda>_. STATUS_OK)(2 := STATUS_TIMEOUT)\<rparr>"

text \<open>The PC answers \<open>3500\<close>, and the authentication of \<open>writeBlockData\<close> fails.\<close>

definition write_auth_fails :: pay_env where
  "write_auth_fails = (host_says ''3500'')\<lparr>write_auth := STATUS_TIMEOUT\<rparr>"

text \<open>The sketch after the example tag was read and READY was sent at time 5000.\<close>

definition waiting :: payment where
  "waiting =
     \<lparr>tag = example_tag,
      sent = [''==== PAYMENT MODE RFID ===='', ''Place your card near the reader...'',
              ''RAG234H,5000'', ''READY''],
      pending = [],
      hw = [Authenticate 2 STATUS_OK, Read 2 STATUS_OK, Authenticate 4 STATUS_OK, Read 4 STATUS_OK],
      card_status = STATUS_OK,
      awaitingUpdate = True, sentReady = True, currentPlate = ''RAG234H'',
      currentBalance = 5000, readySentTime = 5000\<rparr>"

text \<open>A tag that holds nothing yet, and a reader that lets top\_up.ino write it.\<close>

definition blank_tag :: "nat \<Rightarrow> string" where
  "blank_tag = (\<lambda>_. replicate 16 NUL)"

definition operator_env :: top_env where
  "operator_env =
     \<lparr>PICC_IsNewCardPresent = True, PICC_ReadCardSerial = True,
      GetStatusCodeName = (\<lambda>_. ''Error''),
      block_auth = (\<lambda>_. STATUS_OK), block_write = (\<lambda>_. STATUS_OK),
      carPlateBuff_stack = (\<lambda>_. NUL), balanceBuff_stack = (\<lambda>_. NUL),
      after_carPlateBuff = [], after_balanceBuff = []\<rparr>"

text \<open>
  Scenario E: the operator sends a plate of 6 characters, and after the new prompt a
  plate of 7 characters and the balance.
\<close>

definition scenario_E :: "serial_event list" where
  "scenario_E = map Byte ''RAG234#'' @ [Wait] @ map Byte ''RAB123C#1000#''"

text \<open>
  The operator sends a plate of 7 characters and then a balance of no character; nothing
  more has been observed.
\<close>

definition empty_balance :: "serial_event list" where
  "empty_balance = map Byte ''RAB123C##''"

text \<open>
  The operator types a plate and a balance without the terminator, and each time lets
  the timeout pass.
\<close>

definition no_terminator :: "serial_event list" where
  "no_terminator = map Byte ''RAG234H'' @ [Timeout] @ map Byte ''1000'' @ [Timeout]"

text \<open>The lines the card reading phase can send when it gives a card up.\<close>

definition failure_notices :: "string set" where
  "failure_notices =
     {cross_mark @ '' Auth failed for Car Plate'', cross_mark @ '' Read failed for Car Plate'',
      cross_mark @ '' Auth failed for Balance'', cross_mark @ '' Read failed for Balance'',
      warning_sign @ '' Invalid card data. Try again.''}"

section \<open>Facts about the library functions\<close>

lemma digit_chars:
  "digit_char 0 = CHR ''0''" "digit_char 1 = CHR ''1''" "digit_char 2 = CHR ''2''"
  "digit_char 3 = CHR ''3''" "digit_char 4 = CHR ''4''" "digit_char 5 = CHR ''5''"
  "digit_char 6 = CHR ''6''" "digit_char 7 = CHR ''7''" "digit_char 8 = CHR ''8''"
  "digit_char 9 = CHR ''9''"
  by code_simp+


lemma trim_trimmed:
  assumes "trimmed s"
  shows "trim s = s"
proof (cases "s = []")
  case True
  then show ?thesis by (simp add: trim_def)
next
  case False
  with assms have h: "\<not> isspace (hd s)" and l: "\<not> isspace (last s)"
    by (auto simp: trimmed_def)
  from h False have "dropWhile isspace s = s"
    by (simp add: dropWhile_eq_self_iff)
  moreover from l False have "dropWhile isspace (rev s) = rev s"
    by (simp add: dropWhile_eq_self_iff hd_rev)
  ultimately show ?thesis by (simp add: trim_def)
qed

lemma trimmed_trim: "trimmed (trim s)"
proof (cases "trim s = []")
  case True
  then show ?thesis by (simp add: trimmed_def)
next
  case False
  define u where "u = dropWhile isspace s"
  define v where "v = dropWhile isspace (rev u)"
  have ts: "trim s = rev v" by (simp add: trim_def u_def v_def)
  with False have vne: "v \<noteq> []" by simp
  then have "\<not> isspace (hd v)" unfolding v_def by (rule hd_dropWhile)
  then have l: "\<not> isspace (last (trim s))" using vne by (simp add: ts last_rev)
  have "rev u = takeWhile isspace (rev u) @ v" by (simp add: v_def)
  then have "rev (rev u) = rev (takeWhile isspace (rev u) @ v)" by simp
  then have split: "u = rev v @ rev (takeWhile isspace (rev u))" by simp
  have "hd u = hd (rev v)"
    by (subst split) (simp add: vne)
  moreover have "u \<noteq> []" using vne v_def by auto
  then have "\<not> isspace (hd u)" unfolding u_def by (rule hd_dropWhile)
  ultimately have "\<not> isspace (hd (trim s))" by (simp add: ts)
  with l show ?thesis by (simp add: trimmed_def)
qed

lemma trim_idem: "trim (trim s) = trim s"
  by (rule trim_trimmed [OF trimmed_trim])

lemma of_char_digit_char: "d < 10 \<Longrightarrow> of_char (digit_char d) = 48 + d"
  by (simp add: digit_char_def)

lemma isdigit_digit_char: "d < 10 \<Longrightarrow> isdigit (digit_char d)"
  by (simp add: isdigit_def of_char_digit_char)

lemma not_isspace_digit_char:
  assumes "d < 10"
  shows "\<not> isspace (digit_char d)"
proof
  assume "isspace (digit_char d)"
  then have "(of_char (digit_char d) :: nat) = of_char CHR '' '' \<or> (of_char (digit_char d) :: nat) \<le> 13"
    by (auto simp: isspace_def)
  with assms show False by (simp add: of_char_digit_char)
qed


lemma dec_nat_digits: "c \<in> set (dec_nat n) \<Longrightarrow> isdigit c"
proof (induction n arbitrary: c rule: dec_nat.induct)
  case (1 n)
  show ?case
  proof (cases "10 \<le> n")
    case True
    with "1.prems" have "c \<in> set (dec_nat (n div 10)) \<or> c = digit_char (n mod 10)"
      by (subst (asm) dec_nat.simps) auto
    with "1.IH" [OF True] show ?thesis by (auto simp: isdigit_digit_char)
  next
    case False
    with "1.prems" have "c = digit_char n" by (subst (asm) dec_nat.simps) simp
    with False show ?thesis by (simp add: isdigit_digit_char)
  qed
qed

lemma dec_nat_nonempty: "dec_nat n \<noteq> []"
  by (subst dec_nat.simps) simp




lemma dec_nat_hd_digit: "isdigit (hd (dec_nat n))"
  using dec_nat_digits [of "hd (dec_nat n)" n] dec_nat_nonempty [of n] by simp








lemma set_trim: "set (trim s) \<subseteq> set s"
proof
  fix c assume "c \<in> set (trim s)"
  then have "c \<in> set (dropWhile isspace (rev (dropWhile isspace s)))" by (simp add: trim_def)
  then have "c \<in> set (rev (dropWhile isspace s))" by (rule set_dropWhileD)
  then have "c \<in> set (dropWhile isspace s)" by simp
  then show "c \<in> set s" by (rule set_dropWhileD)
qed

lemma c_str_plain: "NUL \<notin> set s \<Longrightarrow> c_str s = s"
  by (auto simp: c_str_def takeWhile_eq_all_conv)

lemma length_uninitialised: "length (uninitialised mem) = 16"
  by (simp add: uninitialised_def)

lemma write_buffer_plain:
  assumes "NUL \<notin> set data"
  shows "write_buffer (uninitialised mem) data
           = take 15 (trim data @ replicate (16 - length (trim data)) CHR '' '') @ [NUL]"
proof -
  define padded where "padded = trim data @ replicate (16 - length (trim data)) CHR '' ''"
  have len: "16 \<le> length padded" by (simp add: padded_def)
  have "NUL \<notin> set padded"
    using assms set_trim [of data] by (auto simp: padded_def NUL_def)
  then have "NUL \<notin> set (take 16 padded)" by (auto dest: in_set_takeD)
  then have sub: "substring padded 0 16 = take 16 padded"
    using len by (simp add: substring_def c_str_plain)
  have l16: "length (take 16 padded) = 16" using len by simp
  have "length (drop 15 (uninitialised mem)) = 1"
    by (simp add: length_uninitialised)
  then obtain x where "drop 15 (uninitialised mem) = [x]"
    by (cases "drop 15 (uninitialised mem)") auto
  then have one: "(drop 15 (uninitialised mem))[0 := NUL] = [NUL]"
    by simp
  have "strncpy (uninitialised mem) (take 16 padded) 15 = take 15 padded @ drop 15 (uninitialised mem)"
    using len \<open>NUL \<notin> set (take 16 padded)\<close> by (simp add: strncpy_def c_str_plain)
  then have "getBytes (take 16 padded) (uninitialised mem) 16 = take 15 padded @ [NUL]"
    using len by (simp add: getBytes_def list_update_append one)
  then show ?thesis
    by (simp add: write_buffer_def Let_def sub flip: padded_def)
qed


lemma trim_snoc:
  assumes "\<not> isspace c"
  shows "trim (xs @ [c]) = dropWhile isspace xs @ [c]"
proof -
  have "dropWhile isspace (xs @ [c]) = dropWhile isspace xs @ [c]"
    using assms by (simp add: dropWhile_append3)
  then show ?thesis using assms by (simp add: trim_def)
qed


section \<open>Properties of process\_payment.ino\<close>

lemmas device_defs = print_def println_def PICC_HaltA_def PCD_StopCrypto1_def delay_def
  PCD_Authenticate_def MIFARE_Read_def MIFARE_Write_def

text \<open>The state \<open>waiting\<close> is the one the sketch reaches from \<open>setup\<close> when the tag is shown.\<close>

lemma waiting_reached: "payment_loop card_shown (payment_setup example_tag) = waiting"
  by (simp add: payment_loop_def payment_setup_def card_shown_def example_tag_def waiting_def
      readBlockData_def block_to_String_def send_ready_def wait_response_def device_defs
      trim_def isspace_def startsWith_def toInt_def atol_def isdigit_def RESPONSE_TIMEOUT_def
      NUL_def)

text \<open>
  C4. While the sketch waits for the PC (READY sent, the timeout not passed) and the line
  read from the PC is, once trimmed, the literal \<open>I\<close>: the denial notice is sent, the tag
  keeps every block, the only reader calls are the halt and the stop of the crypto
  session, followed by the 2000 ms delay, and both flags are cleared, so the next run of
  \<open>loop\<close> looks for a card again.
\<close>

theorem denial_no_write:
  assumes "awaitingUpdate s" and "sentReady s"
    and "\<not> millis_poll e - readySentTime s > RESPONSE_TIMEOUT"
    and "serial_available e" and "trim (serial_line e) = ''I''"
  shows "sent (payment_loop e s)
           = sent s @ [pending s @ ''[RECEIVED FROM PC]: I'', ''[DENIED] Insufficient balance'']
       \<and> tag (payment_loop e s) = tag s
       \<and> hw (payment_loop e s) = hw s @ [HaltA, StopCrypto1, Delay 2000]
       \<and> \<not> awaitingUpdate (payment_loop e s) \<and> \<not> sentReady (payment_loop e s)"
  using assms
  by (simp add: payment_loop_def send_ready_def wait_response_def process_response_def
      equals_def c_str_def NUL_def device_defs)

theorem denial_no_write_witness:
  "awaitingUpdate waiting \<and> sentReady waiting
     \<and> \<not> millis_poll (host_says '' I '') - readySentTime waiting > RESPONSE_TIMEOUT
     \<and> serial_available (host_says '' I '') \<and> trim (serial_line (host_says '' I '')) = ''I''
     \<and> sent (payment_loop (host_says '' I '') waiting)
           = sent waiting @ [''[RECEIVED FROM PC]: I'', ''[DENIED] Insufficient balance'']
     \<and> tag (payment_loop (host_says '' I '') waiting) = example_tag
     \<and> hw (payment_loop (host_says '' I '') waiting) = hw waiting @ [HaltA, StopCrypto1, Delay 2000]
     \<and> \<not> awaitingUpdate (payment_loop (host_says '' I '') waiting)"
  using denial_no_write [of waiting "host_says '' I ''"]
  by (simp add: waiting_def host_says_def card_shown_def RESPONSE_TIMEOUT_def trim_def isspace_def)

text \<open>A run of \<open>loop\<close> while waiting, inside the timeout and with nothing to read, does nothing.\<close>

lemma quiet_poll:
  assumes "awaitingUpdate s" and "sentReady s"
    and "\<not> millis_poll e - readySentTime s > RESPONSE_TIMEOUT" and "\<not> serial_available e"
  shows "payment_loop e s = s"
  using assms by (simp add: payment_loop_def send_ready_def wait_response_def)

lemma run_quiet:
  assumes "awaitingUpdate s" and "sentReady s"
    and "\<forall>e \<in> set es. \<not> serial_available e \<and> \<not> millis_poll e - readySentTime s > RESPONSE_TIMEOUT"
  shows "run es s = s"
  using assms by (induction es) (simp_all add: quiet_poll)

lemma run_append: "run (xs @ ys) s = run ys (run xs s)"
  by (induction xs arbitrary: s) simp_all

text \<open>
  C5. After READY was sent, let the runs \<open>quiet\<close> of \<open>loop\<close> find nothing to read while the
  10000 ms have not passed, and let the run \<open>e\<close> be the first one more than 10000 ms after
  READY. Then the timeout notice is sent, the tag keeps every block (block 4 too), the
  tag is halted and the crypto session stopped, 1000 ms are waited, and both flags are
  cleared. No reader call other than these is made, so nothing is written.
\<close>

theorem timeout_no_write:
  assumes "awaitingUpdate s" and "sentReady s"
    and "\<forall>q \<in> set quiet. \<not> serial_available q \<and> \<not> millis_poll q - readySentTime s > RESPONSE_TIMEOUT"
    and "millis_poll e - readySentTime s > RESPONSE_TIMEOUT"
  shows "sent (run (quiet @ [e]) s) = sent s @ [pending s @ ''[TIMEOUT] No response from PC. Resetting.'']
       \<and> tag (run (quiet @ [e]) s) = tag s
       \<and> hw (run (quiet @ [e]) s) = hw s @ [HaltA, StopCrypto1, Delay 1000]
       \<and> \<not> awaitingUpdate (run (quiet @ [e]) s) \<and> \<not> sentReady (run (quiet @ [e]) s)"
proof -
  have "run (quiet @ [e]) s = payment_loop e s"
    using assms(1-3) by (simp add: run_append run_quiet)
  then show ?thesis
    using assms(1,2,4)
    by (simp add: payment_loop_def send_ready_def wait_response_def device_defs)
qed

theorem timeout_no_write_witness:
  "awaitingUpdate waiting \<and> sentReady waiting
     \<and> \<not> serial_available (silent 6000)
     \<and> \<not> millis_poll (silent 6000) - readySentTime waiting > RESPONSE_TIMEOUT
     \<and> \<not> serial_available (silent 15000)
     \<and> \<not> millis_poll (silent 15000) - readySentTime waiting > RESPONSE_TIMEOUT
     \<and> millis_poll (silent 15001) - readySentTime waiting > RESPONSE_TIMEOUT
     \<and> sent (run ([silent 6000, silent 15000] @ [silent 15001]) waiting)
          = sent waiting @ [''[TIMEOUT] No response from PC. Resetting.'']
     \<and> tag (run ([silent 6000, silent 15000] @ [silent 15001]) waiting) 4 = ''5000            ''
     \<and> hw (run ([silent 6000, silent 15000] @ [silent 15001]) waiting)
          = hw waiting @ [HaltA, StopCrypto1, Delay 1000]
     \<and> \<not> awaitingUpdate (run ([silent 6000, silent 15000] @ [silent 15001]) waiting)"
  using timeout_no_write [of waiting "[silent 6000, silent 15000]" "silent 15001"]
  by (simp add: waiting_def silent_def card_shown_def RESPONSE_TIMEOUT_def example_tag_def)

text \<open>
  C6. No session is open and no line is half printed (as at the start of every run of
  \<open>loop\<close>), a card is detected, and the authentication or the read of block 2 or of
  block 4 fails. Then this run of \<open>loop\<close> sends failure notices only, the
  last one being the invalid-card notice: neither the \<open>plate,balance\<close> line nor READY is
  sent. The tag keeps every block and nothing is written to it; the run ends with the
  halt, the stop of the crypto session and the 2000 ms delay, and no session is open
  afterwards.
\<close>

theorem failed_read_abandons:
  assumes "\<not> awaitingUpdate s" and "pending s = []"
    and "PICC_IsNewCardPresent e" and "PICC_ReadCardSerial e"
    and "read_auth e 2 \<noteq> STATUS_OK \<or> read_status e 2 \<noteq> STATUS_OK
       \<or> read_auth e 4 \<noteq> STATUS_OK \<or> read_status e 4 \<noteq> STATUS_OK"
  shows "(\<exists>notices. sent (payment_loop e s)
                      = sent s @ notices @ [warning_sign @ '' Invalid card data. Try again.'']
            \<and> set notices \<subseteq> failure_notices \<and> ''READY'' \<notin> set notices)
       \<and> tag (payment_loop e s) = tag s
       \<and> (\<exists>calls. hw (payment_loop e s) = hw s @ calls @ [HaltA, StopCrypto1, Delay 2000]
             \<and> (\<forall>b buf st. Write b buf st \<notin> set calls))
       \<and> \<not> awaitingUpdate (payment_loop e s) \<and> sentReady (payment_loop e s) = sentReady s"
  using assms
  by (simp add: payment_loop_def readBlockData_def device_defs startsWith_def Let_def
      failure_notices_def cross_mark_def warning_sign_def split: prod.splits)


theorem failed_read_abandons_witness:
  "\<not> awaitingUpdate (payment_setup example_tag) \<and> pending (payment_setup example_tag) = []
     \<and> PICC_IsNewCardPresent auth2_fails \<and> PICC_ReadCardSerial auth2_fails
     \<and> read_auth auth2_fails 2 \<noteq> STATUS_OK
     \<and> sent (payment_loop auth2_fails (payment_setup example_tag))
          = sent (payment_setup example_tag)
              @ [cross_mark @ '' Auth failed for Car Plate'', warning_sign @ '' Invalid card data. Try again.'']
     \<and> tag (payment_loop auth2_fails (payment_setup example_tag)) = example_tag
     \<and> hw (payment_loop auth2_fails (payment_setup example_tag))
          = [Authenticate 2 STATUS_TIMEOUT, Authenticate 4 STATUS_OK, Read 4 STATUS_OK,
             HaltA, StopCrypto1, Delay 2000]
     \<and> \<not> awaitingUpdate (payment_loop auth2_fails (payment_setup example_tag))"
  using failed_read_abandons [of "payment_setup example_tag" auth2_fails]
  by (simp add: payment_loop_def payment_setup_def auth2_fails_def card_shown_def example_tag_def
      readBlockData_def block_to_String_def device_defs trim_def isspace_def startsWith_def
      NUL_def)


text \<open>
  C3. What \<open>writeBlockData\<close> stores for a String \<open>s\<close> without NUL is the first 15
  characters of the trimmed, space-padded String followed by a NUL byte: \<open>getBytes(buffer, 16)\<close>
  keeps the 16th byte for the terminator. Read again by \<open>readBlockData\<close>, the block gives a
  String that ends in that NUL, so it is never \<open>s\<close>; the white space before the NUL is
  not trimmed away either.
\<close>

theorem payment_codec_loses_last_byte:
  assumes "NUL \<notin> set s"
  shows "write_buffer (uninitialised mem) s
           = take 15 (trim s @ replicate (16 - length (trim s)) CHR '' '') @ [NUL]
       \<and> last (block_to_String (write_buffer (uninitialised mem) s)) = NUL
       \<and> block_to_String (write_buffer (uninitialised mem) s) \<noteq> s"
proof -
  define body where "body = take 15 (trim s @ replicate (16 - length (trim s)) CHR '' '')"
  have wb: "write_buffer (uninitialised mem) s = body @ [NUL]"
    using write_buffer_plain [OF assms] by (simp add: body_def)
  have "length body = 15" by (simp add: body_def)
  then have "block_to_String (body @ [NUL]) = dropWhile isspace body @ [NUL]"
    by (simp add: block_to_String_def trim_snoc isspace_def NUL_def)
  then have l: "last (block_to_String (write_buffer (uninitialised mem) s)) = NUL"
    by (simp add: wb)
  have "block_to_String (write_buffer (uninitialised mem) s) \<noteq> s"
  proof
    assume eq: "block_to_String (write_buffer (uninitialised mem) s) = s"
    with \<open>block_to_String (body @ [NUL]) = dropWhile isspace body @ [NUL]\<close>
    have "NUL \<in> set s" by (simp add: wb) (metis in_set_conv_decomp)
    with assms show False by simp
  qed
  with wb l show ?thesis by (simp add: body_def)
qed

theorem payment_codec_loses_last_byte_witness:
  "NUL \<notin> set ''3500''
     \<and> write_buffer (uninitialised (\<lambda>_. CHR ''x'')) ''3500'' = ''3500           '' @ [NUL]
     \<and> block_to_String (write_buffer (uninitialised (\<lambda>_. CHR ''x'')) ''3500'') = ''3500           '' @ [NUL]
     \<and> block_to_String (write_buffer (uninitialised (\<lambda>_. CHR ''x'')) ''3500'') \<noteq> ''3500''
     \<and> block_to_String (write_buffer (uninitialised (\<lambda>_. CHR ''x'')) ''1234567890123456'')
           = ''123456789012345'' @ [NUL]"
proof -
  have h: "NUL \<notin> set ''3500''"
    by (simp add: NUL_def)
  have stored: "write_buffer (uninitialised (\<lambda>_. CHR ''x'')) ''3500'' = ''3500           '' @ [NUL]"
    by code_simp
  have reread: "block_to_String (write_buffer (uninitialised (\<lambda>_. CHR ''x'')) ''3500'')
                = ''3500           '' @ [NUL]"
    by code_simp
  have whole: "block_to_String (write_buffer (uninitialised (\<lambda>_. CHR ''x'')) ''1234567890123456'')
                = ''123456789012345'' @ [NUL]"
    by code_simp
  from payment_codec_loses_last_byte [OF h, of "\<lambda>_. CHR ''x''"]
  have "block_to_String (write_buffer (uninitialised (\<lambda>_. CHR ''x'')) ''3500'') \<noteq> ''3500''"
    by blast
  with h stored reread whole show ?thesis by blast
qed

lemmas response_defs = payment_loop_def send_ready_def wait_response_def process_response_def
  writeBlockData_def

text \<open>
  C9. While the sketch waits for the PC and a line is read that is not \<open>I\<close> and whose
  \<open>toInt\<close> is not negative, the lines sent are, in this order: the echo of the line, the
  debug line, the number with the writing notice, the failure notice of \<open>writeBlockData\<close>
  if its authentication or its write failed, then \<open>DONE\<close> and the updated-balance line.
  \<open>DONE\<close> is sent whatever the reader answered; when the authentication or the write
  failed, the tag still holds what it held.
\<close>

theorem done_after_any_write_attempt:
  assumes "awaitingUpdate s" and "sentReady s"
    and "\<not> millis_poll e - readySentTime s > RESPONSE_TIMEOUT"
    and "serial_available e"
    and "\<not> equals (trim (serial_line e)) ''I''"
    and "0 \<le>s toInt (trim (serial_line e))"
  shows "sent (payment_loop e s)
           = sent s
             @ [pending s @ ''[RECEIVED FROM PC]: '' @ trim (serial_line e),
                ''[DEBUG] Cleaned response: '' @ [CHR 0x27] @ trim (serial_line e) @ [CHR 0x27],
                ltoa (sint (toInt (trim (serial_line e)))) @ ''[WRITING] New balance to card...'']
             @ (if write_auth e \<noteq> STATUS_OK then [cross_mark @ '' Auth failed on write'']
                else if write_status e \<noteq> STATUS_OK then [cross_mark @ '' Write failed'']
                else [])
             @ [''DONE'', ''[UPDATED] New Balance: '' @ ltoa (sint (toInt (trim (serial_line e))))]
       \<and> (write_auth e \<noteq> STATUS_OK \<or> write_status e \<noteq> STATUS_OK
            \<longrightarrow> tag (payment_loop e s) = tag s)"
  using assms
  by (simp add: response_defs trim_idem device_defs Let_def)

theorem done_after_any_write_attempt_witness:
  "awaitingUpdate waiting \<and> sentReady waiting
     \<and> \<not> millis_poll write_auth_fails - readySentTime waiting > RESPONSE_TIMEOUT
     \<and> serial_available write_auth_fails
     \<and> \<not> equals (trim (serial_line write_auth_fails)) ''I''
     \<and> 0 \<le>s toInt (trim (serial_line write_auth_fails))
     \<and> write_auth write_auth_fails \<noteq> STATUS_OK
     \<and> sent (payment_loop write_auth_fails waiting)
          = sent waiting
            @ [''[RECEIVED FROM PC]: 3500'', ''[DEBUG] Cleaned response: '' @ [CHR 0x27] @ ''3500'' @ [CHR 0x27],
               ''3500[WRITING] New balance to card...'', cross_mark @ '' Auth failed on write'',
               ''DONE'', ''[UPDATED] New Balance: 3500'']
     \<and> tag (payment_loop write_auth_fails waiting) 4 = ''5000            ''"
proof -
  have line: "trim (serial_line write_auth_fails) = ''3500''"
    by (simp add: write_auth_fails_def host_says_def card_shown_def trim_def isspace_def)
  have parsed: "toInt ''3500'' = 3500"
    by (simp add: toInt_def atol_def isspace_def isdigit_def)
  have shown: "ltoa 3500 = ''3500''"
    by (simp add: ltoa_def dec_nat.simps digit_chars)
  have st: "awaitingUpdate waiting" "sentReady waiting"
    "\<not> millis_poll write_auth_fails - readySentTime waiting > RESPONSE_TIMEOUT"
    "serial_available write_auth_fails"
    by (simp_all add: waiting_def write_auth_fails_def host_says_def card_shown_def
        RESPONSE_TIMEOUT_def)
  have dec: "\<not> equals (trim (serial_line write_auth_fails)) ''I''"
    "0 \<le>s toInt (trim (serial_line write_auth_fails))"
    by (simp_all add: line parsed equals_def c_str_def NUL_def word_sle_eq)
  have fails: "write_auth write_auth_fails \<noteq> STATUS_OK"
    by (simp add: write_auth_fails_def)
  note h = st dec fails
  from done_after_any_write_attempt [OF st dec] fails
  have "sent (payment_loop write_auth_fails waiting)
          = sent waiting
            @ [''[RECEIVED FROM PC]: 3500'', ''[DEBUG] Cleaned response: '' @ [CHR 0x27] @ ''3500'' @ [CHR 0x27],
               ''3500[WRITING] New balance to card...'', cross_mark @ '' Auth failed on write'',
               ''DONE'', ''[UPDATED] New Balance: 3500'']"
    and "tag (payment_loop write_auth_fails waiting) = tag waiting"
    by (simp_all add: line parsed shown waiting_def)
  then show ?thesis
    using h by (simp add: waiting_def example_tag_def)
qed


lemma longer_differs: "length zs < length ys \<Longrightarrow> xs @ ys \<noteq> zs"
  by auto

lemma payload_not_READY: "plate @ CHR '','' # balance \<noteq> ''READY''"
proof
  assume eq: "plate @ CHR '','' # balance = ''READY''"
  have "CHR '','' \<in> set (plate @ CHR '','' # balance)" by simp
  then have "CHR '','' \<in> set ''READY''" by (simp only: eq)
  then show False by simp
qed

lemma first_run:
  assumes "\<not> awaitingUpdate s" and "pending s = []"
    and "PICC_IsNewCardPresent e" and "PICC_ReadCardSerial e"
    and "read_auth e 2 = STATUS_OK" and "read_status e 2 = STATUS_OK"
    and "read_auth e 4 = STATUS_OK" and "read_status e 4 = STATUS_OK"
    and "\<not> startsWith (block_to_String (tag s 2)) ''[''"
    and "\<not> startsWith (block_to_String (tag s 4)) ''[''"
  shows "\<exists>s2. payment_loop e s = wait_response e s2
           \<and> awaitingUpdate s2 \<and> sentReady s2 \<and> pending s2 = []
           \<and> readySentTime s2 = millis_ready e
           \<and> count_list (sent s2) ''READY'' = count_list (sent s) ''READY'' + 1"
  using assms
  apply (simp add: payment_loop_def readBlockData_def send_ready_def device_defs)
  apply (rule exI, rule conjI, rule refl)
  apply (simp add: payload_not_READY)
  done


lemma waiting_step:
  assumes "awaitingUpdate s" and "sentReady s" and "pending s = []"
  shows "count_list (sent (wait_response e s)) ''READY'' = count_list (sent s) ''READY''
       \<and> pending (wait_response e s) = []
       \<and> (awaitingUpdate (wait_response e s)
            \<longrightarrow> sentReady (wait_response e s) \<and> readySentTime (wait_response e s) = readySentTime s)"
  using assms
  by (simp add: wait_response_def process_response_def writeBlockData_def device_defs Let_def
      longer_differs cross_mark_def)

lemma loop_while_waiting:
  "awaitingUpdate s \<Longrightarrow> sentReady s \<Longrightarrow> payment_loop e s = wait_response e s"
  by (simp add: payment_loop_def send_ready_def)

lemma session_waiting:
  assumes "awaitingUpdate s" and "sentReady s" and "pending s = []"
  shows "count_list (sent (session es s)) ''READY'' = count_list (sent s) ''READY''
       \<and> (awaitingUpdate (session es s)
            \<longrightarrow> sentReady (session es s) \<and> readySentTime (session es s) = readySentTime s)"
  using assms
proof (induction es arbitrary: s)
  case Nil
  then show ?case by simp
next
  case (Cons e es)
  note step = waiting_step [OF Cons.prems, of e]
  note run = loop_while_waiting [OF Cons.prems(1,2), of e]
  show ?case
  proof (cases "awaitingUpdate (wait_response e s)")
    case True
    with step Cons.IH [of "wait_response e s"] show ?thesis by (simp add: run)
  next
    case False
    with step show ?thesis by (simp add: run)
  qed
qed

text \<open>
  C7. A session starts with a run of \<open>loop\<close> that finds no session open and no line half
  printed, detects a card and reads blocks 2 and 4 without failure. Whatever runs follow, up to the end of the
  session the line \<open>READY\<close> is sent exactly once; and as long as the session is open,
  \<open>readySentTime\<close>, which the timeout test at line 96 reads, is the value \<open>millis()\<close>
  returned at line 90, right after READY was sent. (A line is what one \<open>println\<close> ends.)
\<close>

theorem ready_sent_once:
  assumes "\<not> awaitingUpdate s" and "pending s = []"
    and "PICC_IsNewCardPresent e" and "PICC_ReadCardSerial e"
    and "read_auth e 2 = STATUS_OK" and "read_status e 2 = STATUS_OK"
    and "read_auth e 4 = STATUS_OK" and "read_status e 4 = STATUS_OK"
    and "\<not> startsWith (block_to_String (tag s 2)) ''[''"
    and "\<not> startsWith (block_to_String (tag s 4)) ''[''"
  shows "count_list (sent (session (e # es) s)) ''READY'' = count_list (sent s) ''READY'' + 1
       \<and> (awaitingUpdate (session (e # es) s)
            \<longrightarrow> sentReady (session (e # es) s) \<and> readySentTime (session (e # es) s) = millis_ready e)"
proof -
  from first_run [OF assms] obtain s2 where
    run: "payment_loop e s = wait_response e s2"
    and w: "awaitingUpdate s2" "sentReady s2" "pending s2 = []"
    and t: "readySentTime s2 = millis_ready e"
    and c: "count_list (sent s2) ''READY'' = count_list (sent s) ''READY'' + 1"
    by blast
  have "session (e # es) s = session (e # es) s2"
    by (simp add: run loop_while_waiting [OF w(1,2)])
  with session_waiting [OF w, of "e # es"] c t show ?thesis by simp
qed

theorem ready_sent_once_witness:
  "\<not> awaitingUpdate (payment_setup example_tag) \<and> pending (payment_setup example_tag) = []
     \<and> PICC_IsNewCardPresent card_shown \<and> PICC_ReadCardSerial card_shown
     \<and> read_auth card_shown 2 = STATUS_OK \<and> read_status card_shown 2 = STATUS_OK
     \<and> read_auth card_shown 4 = STATUS_OK \<and> read_status card_shown 4 = STATUS_OK
     \<and> \<not> startsWith (block_to_String (tag (payment_setup example_tag) 2)) ''[''
     \<and> \<not> startsWith (block_to_String (tag (payment_setup example_tag) 4)) ''[''
     \<and> count_list (sent (session [card_shown, silent 6000, host_says ''3500'', card_shown]
                               (payment_setup example_tag))) ''READY'' = 1
     \<and> count_list (sent (session [card_shown, silent 6000] (payment_setup example_tag))) ''READY'' = 1
     \<and> awaitingUpdate (session [card_shown, silent 6000] (payment_setup example_tag))
     \<and> readySentTime (session [card_shown, silent 6000] (payment_setup example_tag)) = 5000"
proof -
  have h: "\<not> awaitingUpdate (payment_setup example_tag)" "pending (payment_setup example_tag) = []"
    "PICC_IsNewCardPresent card_shown" "PICC_ReadCardSerial card_shown"
    "read_auth card_shown 2 = STATUS_OK" "read_status card_shown 2 = STATUS_OK"
    "read_auth card_shown 4 = STATUS_OK" "read_status card_shown 4 = STATUS_OK"
    "\<not> startsWith (block_to_String (tag (payment_setup example_tag) 2)) ''[''"
    "\<not> startsWith (block_to_String (tag (payment_setup example_tag) 4)) ''[''"
    by (simp_all add: payment_setup_def card_shown_def example_tag_def device_defs
        block_to_String_def trim_def isspace_def startsWith_def)
  have none: "count_list (sent (payment_setup example_tag)) ''READY'' = 0"
    by (simp add: payment_setup_def device_defs)
  have quiet: "payment_loop (silent 6000) waiting = waiting"
    by (rule quiet_poll) (simp_all add: waiting_def silent_def card_shown_def RESPONSE_TIMEOUT_def)
  have open_session: "awaitingUpdate waiting"
    by (simp add: waiting_def)
  have still: "awaitingUpdate (session [card_shown, silent 6000] (payment_setup example_tag))"
    by (simp add: waiting_reached quiet open_session)
  have at: "millis_ready card_shown = 5000"
    by (simp add: card_shown_def)
  from ready_sent_once [OF h, of "[silent 6000, host_says ''3500'', card_shown]"]
    ready_sent_once [OF h, of "[silent 6000]"] none still at h
  show ?thesis by simp
qed


text \<open>
  Every run of \<open>loop\<close> ends its last line: from \<open>setup\<close> on, no run starts with text
  printed but not ended by a \<open>println\<close>.
\<close>

lemma pending_readBlockData:
  "readBlockData a r b l s = (str, s') \<Longrightarrow> pending s = [] \<Longrightarrow> pending s' = []"
  by (auto simp: readBlockData_def device_defs Let_def split: if_splits)

lemma pending_wait_response: "pending s = [] \<Longrightarrow> pending (wait_response e s) = []"
proof (cases "awaitingUpdate s \<and> sentReady s")
  case True
  assume "pending s = []"
  with True waiting_step [of s e] show ?thesis by simp
next
  case False
  assume "pending s = []"
  with False show ?thesis by (auto simp: wait_response_def)
qed

lemma pending_send_ready: "pending s = [] \<Longrightarrow> pending (send_ready e s) = []"
  by (simp add: send_ready_def device_defs)

lemma loop_line_complete:
  assumes "pending s = []"
  shows "pending (payment_loop e s) = []"
proof -
  obtain plate s1 where r1: "readBlockData (read_auth e 2) (read_status e 2) 2 ''Car Plate'' s = (plate, s1)"
    by (cases "readBlockData (read_auth e 2) (read_status e 2) 2 ''Car Plate'' s") auto
  obtain balanceStr s2 where
    r2: "readBlockData (read_auth e 4) (read_status e 4) 4 ''Balance'' (s1\<lparr>currentPlate := plate\<rparr>)
           = (balanceStr, s2)"
    by (cases "readBlockData (read_auth e 4) (read_status e 4) 4 ''Balance'' (s1\<lparr>currentPlate := plate\<rparr>)")
      auto
  have "pending s1 = []" using pending_readBlockData [OF r1 assms] .
  then have "pending (s1\<lparr>currentPlate := plate\<rparr>) = []" by simp
  from pending_readBlockData [OF r2 this] have p2: "pending s2 = []" .
  show ?thesis
    using assms p2
    by (simp add: payment_loop_def r1 r2 Let_def device_defs pending_wait_response
        pending_send_ready)
qed

lemma run_line_complete: "pending s = [] \<Longrightarrow> pending (run es s) = []"
  by (induction es arbitrary: s) (simp_all add: loop_line_complete)

lemma setup_line_complete: "pending (run es (payment_setup t)) = []"
  by (rule run_line_complete) (simp add: payment_setup_def device_defs)


lemma commit_fields:
  assumes "awaitingUpdate s" and "sentReady s"
    and "\<not> millis_poll e - readySentTime s > RESPONSE_TIMEOUT"
    and "serial_available e"
    and "\<not> equals (trim (serial_line e)) ''I''"
    and "0 \<le>s toInt (trim (serial_line e))"
  shows "tag (payment_loop e s)
           = (if write_auth e = STATUS_OK \<and> write_status e = STATUS_OK
              then (tag s)(4 := take 16 (write_buffer (uninitialised (stack_buffer e))
                                           (String_long (toInt (trim (serial_line e))))))
              else tag s)"
    and "hw (payment_loop e s)
           = hw s @ Authenticate 4 (write_auth e)
               # (if write_auth e = STATUS_OK
                  then [Write 4 (take 16 (write_buffer (uninitialised (stack_buffer e))
                                            (String_long (toInt (trim (serial_line e))))))
                          (write_status e)]
                  else [])
               @ [HaltA, StopCrypto1, Delay 2000]"
    and "''DONE'' \<in> set (sent (payment_loop e s))"
    and "\<not> awaitingUpdate (payment_loop e s)"
  using assms
  by (simp_all add: response_defs trim_idem device_defs Let_def)

lemma zero_buffer: "write_buffer (uninitialised mem) (String_long 0) = ''0              '' @ [NUL]"
proof -
  have z: "String_long 0 = ''0''"
    by (simp add: String_long_def ltoa_def dec_nat.simps digit_chars)
  have "NUL \<notin> set ''0''" by (simp add: NUL_def)
  from write_buffer_plain [OF this, of mem]
  have "write_buffer (uninitialised mem) ''0'' = take 15 (CHR ''0'' # replicate 15 CHR '' '') @ [NUL]"
    by (simp add: trim_def isspace_def)
  also have "take 15 (CHR ''0'' # replicate 15 CHR '' '') = ''0              ''"
    by code_simp
  finally show ?thesis by (simp add: z)
qed

text \<open>
  C1. While the sketch waits for the PC, let the line read be other than \<open>I\<close> and let
  \<open>toInt\<close> give 0 for it, as it does for every line that does not start with a number
  (\<open>abc\<close>, an empty line). With a reader that answers \<open>STATUS_OK\<close>, block 4 of the tag is
  overwritten with the balance 0 and \<open>DONE\<close> is sent: the test \<open>newBalance >= 0\<close> cannot
  tell such a line from the decision \<open>0\<close>.
\<close>

theorem unparsable_line_zeroes_balance:
  assumes "awaitingUpdate s" and "sentReady s"
    and "\<not> millis_poll e - readySentTime s > RESPONSE_TIMEOUT"
    and "serial_available e"
    and "\<not> equals (trim (serial_line e)) ''I''"
    and "toInt (trim (serial_line e)) = 0"
    and "write_auth e = STATUS_OK" and "write_status e = STATUS_OK"
  shows "tag (payment_loop e s) = (tag s)(4 := ''0              '' @ [NUL])
       \<and> hw (payment_loop e s)
           = hw s @ [Authenticate 4 STATUS_OK, Write 4 (''0              '' @ [NUL]) STATUS_OK,
                     HaltA, StopCrypto1, Delay 2000]
       \<and> ''DONE'' \<in> set (sent (payment_loop e s))"
proof -
  have nonneg: "0 \<le>s toInt (trim (serial_line e))"
    using assms(6) by simp
  note f = commit_fields [OF assms(1-5) nonneg]
  show ?thesis
    using f(1) f(2) f(3) by (simp add: assms(6-8) zero_buffer)
qed

theorem unparsable_line_zeroes_balance_witness:
  "awaitingUpdate waiting \<and> sentReady waiting
     \<and> \<not> millis_poll (host_says ''abc'') - readySentTime waiting > RESPONSE_TIMEOUT
     \<and> serial_available (host_says ''abc'')
     \<and> \<not> equals (trim (serial_line (host_says ''abc''))) ''I''
     \<and> toInt (trim (serial_line (host_says ''abc''))) = 0
     \<and> write_auth (host_says ''abc'') = STATUS_OK \<and> write_status (host_says ''abc'') = STATUS_OK
     \<and> tag waiting 4 = ''5000            ''
     \<and> tag (payment_loop (host_says ''abc'') waiting) 4 = ''0              '' @ [NUL]
     \<and> hw (payment_loop (host_says ''abc'') waiting)
           = hw waiting @ [Authenticate 4 STATUS_OK, Write 4 (''0              '' @ [NUL]) STATUS_OK,
                           HaltA, StopCrypto1, Delay 2000]
     \<and> ''DONE'' \<in> set (sent (payment_loop (host_says ''abc'') waiting))"
proof -
  have line: "trim (serial_line (host_says ''abc'')) = ''abc''"
    by (simp add: host_says_def card_shown_def trim_def isspace_def)
  have st: "awaitingUpdate waiting" "sentReady waiting"
    "\<not> millis_poll (host_says ''abc'') - readySentTime waiting > RESPONSE_TIMEOUT"
    "serial_available (host_says ''abc'')"
    by (simp_all add: waiting_def host_says_def card_shown_def RESPONSE_TIMEOUT_def)
  have dec: "\<not> equals (trim (serial_line (host_says ''abc''))) ''I''"
    "toInt (trim (serial_line (host_says ''abc''))) = 0"
    by (simp_all add: line equals_def c_str_def NUL_def toInt_def atol_def isspace_def isdigit_def)
  have ok: "write_auth (host_says ''abc'') = STATUS_OK" "write_status (host_says ''abc'') = STATUS_OK"
    by (simp_all add: host_says_def card_shown_def)
  have before: "tag waiting 4 = ''5000            ''"
    by (simp add: waiting_def example_tag_def)
  from unparsable_line_zeroes_balance [OF st dec ok] st dec ok before
  show ?thesis by simp
qed

















section \<open>Properties of top\_up.ino\<close>

lemma fold_update_range:
  "m \<le> n \<Longrightarrow> n \<le> length b
     \<Longrightarrow> fold (\<lambda>i b. b[i := x]) [m..<n] b = take m b @ replicate (n - m) x @ drop n b"
proof (induction n)
  case 0
  then show ?case by simp
next
  case (Suc n)
  show ?case
  proof (cases "m = Suc n")
    case True
    then show ?thesis by simp
  next
    case False
    with Suc.prems have mn: "m \<le> n" and nb: "n < length b" by simp_all
    have "fold (\<lambda>i b. b[i := x]) [m..<Suc n] b
            = (take m b @ replicate (n - m) x @ drop n b)[n := x]"
      using mn nb Suc.IH by simp
    also have "\<dots> = take m b @ replicate (n - m) x @ (drop n b)[0 := x]"
      using mn nb by (simp add: list_update_append)
    also have "(drop n b)[0 := x] = x # drop (Suc n) b"
    proof -
      have "drop n b = b ! n # drop (Suc n) b"
        using nb by (simp add: Cons_nth_drop_Suc)
      then show ?thesis by simp
    qed
    also have "take m b @ replicate (n - m) x @ x # drop (Suc n) b
                 = take m b @ replicate (Suc n - m) x @ drop (Suc n) b"
      using mn by (simp add: Suc_diff_le replicate_append_same)
    finally show ?thesis .
  qed
qed

lemma padBuffer_eq:
  "length buffer = 16 \<Longrightarrow> len \<le> 16
     \<Longrightarrow> padBuffer buffer len = take len buffer @ replicate (16 - len) CHR '' ''"
  by (simp add: padBuffer_def fold_update_range)

lemma readBytesUntil_from_length:
  "readBytesUntil_from index terminator buffer len input = Some (n, b, rest)
     \<Longrightarrow> length b = length buffer"
proof (induction input arbitrary: index buffer)
  case Nil
  then show ?case by (simp split: if_splits)
next
  case (Cons ev input)
  then show ?case
    by (cases ev) (auto split: if_splits)
qed

lemma readBytesUntil_from_count:
  "readBytesUntil_from index terminator buffer len input = Some (n, b, rest) \<Longrightarrow> index \<le> len
     \<Longrightarrow> index \<le> n \<and> n \<le> len"
proof (induction input arbitrary: index buffer)
  case Nil
  then show ?case by (simp split: if_splits)
next
  case (Cons ev input)
  show ?case
  proof (cases ev)
    case (Byte c)
    show ?thesis
    proof (cases "index < len \<and> c \<noteq> terminator")
      case True
      with Cons.prems Byte
      have "readBytesUntil_from (Suc index) terminator (buffer[index := c]) len input = Some (n, b, rest)"
        by simp
      from Cons.IH [OF this] True show ?thesis by simp
    next
      case False
      with Cons.prems Byte show ?thesis by (auto split: if_splits)
    qed
  next
    case Wait
    with Cons.prems Cons.IH [of index buffer] show ?thesis by (auto split: if_splits)
  next
    case Timeout
    with Cons.prems show ?thesis by (auto split: if_splits)
  qed
qed

lemma readBytesUntil_bounds:
  assumes "readBytesUntil terminator buffer 16 input = Some (n, b, rest)"
  shows "n \<le> 16" and "length b = length buffer"
  using assms readBytesUntil_from_count [of 0 terminator buffer 16 input n b rest]
    readBytesUntil_from_length [of 0 terminator buffer 16 input n b rest]
  by (simp_all add: readBytesUntil_def)

lemma flushSerial_not_available: "\<not> available (flushSerial input)"
  by (induction input rule: flushSerial.induct) simp_all

text \<open>
  The writer of top\_up.ino keeps all 16 bytes: a trimmed input of at most 16 bytes,
  padded by \<open>padBuffer\<close>, is read again by \<open>readBlockData\<close> as it was typed.
\<close>

lemma trim_padded:
  assumes "trimmed s"
  shows "trim (s @ replicate k CHR '' '') = s"
proof (cases "s = []")
  case True
  have "dropWhile isspace (replicate k CHR '' '') = []"
    by (simp add: isspace_def)
  with True show ?thesis by (simp add: trim_def)
next
  case False
  with assms have h: "\<not> isspace (hd s)" and l: "\<not> isspace (last s)"
    by (auto simp: trimmed_def)
  from h False have "dropWhile isspace (s @ replicate k CHR '' '') = s @ replicate k CHR '' ''"
    by (cases s) simp_all
  moreover have "dropWhile isspace (replicate k CHR '' '' @ rev s) = dropWhile isspace (rev s)"
    by (induction k) (simp_all add: isspace_def)
  moreover from l False have "dropWhile isspace (rev s) = rev s"
    by (simp add: dropWhile_eq_self_iff hd_rev)
  ultimately show ?thesis by (simp add: trim_def)
qed

lemma provisioning_codec_round_trip:
  assumes "trimmed s" and "length s \<le> 16" and "length buffer = 16"
  shows "block_to_String (padBuffer (s @ drop (length s) buffer) (length s)) = s"
proof -
  have "padBuffer (s @ drop (length s) buffer) (length s) = s @ replicate (16 - length s) CHR '' ''"
    using assms(2,3) by (simp add: padBuffer_eq)
  then show ?thesis
    using assms(2) by (simp add: block_to_String_def trim_padded [OF assms(1)])
qed


lemma tag_plate_rejected: "tag (plate_rejected len s) = tag s" "hw (plate_rejected len s) = hw s"
  by (simp_all add: plate_rejected_def device_defs Let_def)

lemma tag_balance_rejected: "tag (balance_rejected s) = tag s" "hw (balance_rejected s) = hw s"
  by (simp_all add: balance_rejected_def device_defs)

lemma plate_prompt_step:
  "readBytesUntil CHR ''#'' carPlateBuff 16 input = None
     \<Longrightarrow> plate_prompt carPlateBuff input s = Reading (println plate_prompt_text s)"
  "readBytesUntil CHR ''#'' carPlateBuff 16 input = Some (7, buf, rest)
     \<Longrightarrow> plate_prompt carPlateBuff input s
           = Accepted (padBuffer buf 7) rest (println plate_prompt_text s)"
  "readBytesUntil CHR ''#'' carPlateBuff 16 input = Some (len, buf, rest) \<Longrightarrow> len \<noteq> 7
     \<Longrightarrow> plate_prompt carPlateBuff input s
           = plate_prompt buf (flushSerial rest) (plate_rejected len (println plate_prompt_text s))"
  by (subst plate_prompt.simps, simp)+

lemma balance_prompt_step:
  "readBytesUntil CHR ''#'' balanceBuff 16 input = None
     \<Longrightarrow> balance_prompt balanceBuff input s = Reading (println balance_prompt_text s)"
  "readBytesUntil CHR ''#'' balanceBuff 16 input = Some (len, buf, rest) \<Longrightarrow> 0 < len \<Longrightarrow> len \<le> 16
     \<Longrightarrow> balance_prompt balanceBuff input s
           = Accepted (padBuffer buf len) rest (println balance_prompt_text s)"
  "readBytesUntil CHR ''#'' balanceBuff 16 input = Some (len, buf, rest) \<Longrightarrow> \<not> (0 < len \<and> len \<le> 16)
     \<Longrightarrow> balance_prompt balanceBuff input s
           = balance_prompt buf (flushSerial rest) (balance_rejected (println balance_prompt_text s))"
  by (subst balance_prompt.simps, auto simp: Let_def)+

lemma plate_prompt_result:
  "length carPlateBuff = 16 \<Longrightarrow>
     tag (prompt_device (plate_prompt carPlateBuff input s)) = tag s
     \<and> hw (prompt_device (plate_prompt carPlateBuff input s)) = hw s
     \<and> (\<forall>b. prompt_buffer (plate_prompt carPlateBuff input s) = Some b
            \<longrightarrow> (\<exists>plate. length plate = 7 \<and> b = plate @ replicate 9 CHR '' ''))"
proof (induction carPlateBuff input s rule: plate_prompt.induct)
  case (1 carPlateBuff input s)
  show ?case
  proof (cases "readBytesUntil CHR ''#'' carPlateBuff 16 input")
    case None
    then show ?thesis
      by (simp add: plate_prompt_step(1) device_defs)
  next
    case (Some r)
    obtain len buf rest where r: "r = (len, buf, rest)" by (cases r) auto
    from Some r have rd: "readBytesUntil CHR ''#'' carPlateBuff 16 input = Some (len, buf, rest)"
      by simp
    from readBytesUntil_bounds(2) [OF rd] "1.prems" have lb: "length buf = 16" by simp
    show ?thesis
    proof (cases "len = 7")
      case True
      have "padBuffer buf 7 = take 7 buf @ replicate 9 CHR '' ''"
        using lb by (simp add: padBuffer_eq)
      moreover have "length (take 7 buf) = 7" using lb by simp
      ultimately have "\<exists>plate. length plate = 7 \<and> padBuffer buf 7 = plate @ replicate 9 CHR '' ''"
        by blast
      with True rd show ?thesis
        by (simp add: plate_prompt_step(2) device_defs)
    next
      case False
      from "1.IH" [OF refl Some r [symmetric] refl False lb]
      show ?thesis
        by (simp add: plate_prompt_step(3) [OF rd False] tag_plate_rejected device_defs)
    qed
  qed
qed

lemma balance_prompt_result:
  "length balanceBuff = 16 \<Longrightarrow>
     tag (prompt_device (balance_prompt balanceBuff input s)) = tag s
     \<and> hw (prompt_device (balance_prompt balanceBuff input s)) = hw s
     \<and> (\<forall>b. prompt_buffer (balance_prompt balanceBuff input s) = Some b
            \<longrightarrow> (\<exists>balance. 0 < length balance \<and> length balance \<le> 16
                    \<and> b = balance @ replicate (16 - length balance) CHR '' ''))"
proof (induction balanceBuff input s rule: balance_prompt.induct)
  case (1 balanceBuff input s)
  show ?case
  proof (cases "readBytesUntil CHR ''#'' balanceBuff 16 input")
    case None
    then show ?thesis
      by (simp add: balance_prompt_step(1) device_defs)
  next
    case (Some r)
    obtain len buf rest where r: "r = (len, buf, rest)" by (cases r) auto
    from Some r have rd: "readBytesUntil CHR ''#'' balanceBuff 16 input = Some (len, buf, rest)"
      by simp
    from readBytesUntil_bounds(2) [OF rd] "1.prems" have lb: "length buf = 16" by simp
    show ?thesis
    proof (cases "0 < len \<and> len \<le> 16")
      case True
      have "padBuffer buf len = take len buf @ replicate (16 - len) CHR '' ''"
        using lb True by (simp add: padBuffer_eq)
      moreover have "length (take len buf) = len" using lb True by simp
      ultimately have "\<exists>balance. 0 < length balance \<and> length balance \<le> 16
          \<and> padBuffer buf len = balance @ replicate (16 - length balance) CHR '' ''"
        using True by (intro exI [of _ "take len buf"]) simp
      with True rd show ?thesis
        by (simp add: balance_prompt_step(2) device_defs)
    next
      case False
      from "1.IH" [OF refl Some r [symmetric] refl False lb]
      show ?thesis
        by (simp add: balance_prompt_step(3) [OF rd False] tag_balance_rejected device_defs)
    qed
  qed
qed

lemma hw_writeBytesToBlock:
  "hw (writeBytesToBlock name a w blk buff s)
     = hw s @ Authenticate blk a # (if a = STATUS_OK then [Write blk (take 16 buff) w] else [])"
  by (simp add: writeBytesToBlock_def device_defs Let_def)


lemma hw_simps:
  "hw (print x s) = hw s" "hw (println x s) = hw s" "hw (PICC_HaltA s) = hw s @ [HaltA]"
  "hw (PCD_StopCrypto1 s) = hw s @ [StopCrypto1]" "hw (delay ms s) = hw s @ [Delay ms]"
  by (simp_all add: device_defs)

lemma tag_simps:
  "tag (print x s) = tag s" "tag (println x s) = tag s" "tag (PICC_HaltA s) = tag s"
  "tag (PCD_StopCrypto1 s) = tag s" "tag (delay ms s) = tag s"
  by (simp_all add: device_defs)

lemma top_up_loop_result:
  "(case top_up_loop e input s of
      Prompting s' \<Rightarrow> tag s' = tag s \<and> hw s' = hw s
    | Returned s' rest \<Rightarrow>
        (tag s' = tag s \<and> hw s' = hw s)
        \<or> (\<exists>plate balance input1 s1 input2 s2.
              length plate = 7 \<and> 0 < length balance \<and> length balance \<le> 16
              \<and> plate_prompt (uninitialised (carPlateBuff_stack e)) input
                     (println (antenna_bars @ '' Card detected!'') s)
                   = Accepted (plate @ replicate 9 CHR '' '') input1 s1
              \<and> balance_prompt (uninitialised (balanceBuff_stack e)) input1 s1
                   = Accepted (balance @ replicate (16 - length balance) CHR '' '') input2 s2
              \<and> hw s' = hw s
                   @ Authenticate 2 (block_auth e 2)
                     # (if block_auth e 2 = STATUS_OK
                        then [Write 2 (plate @ replicate 9 CHR '' '') (block_write e 2)] else [])
                   @ Authenticate 4 (block_auth e 4)
                     # (if block_auth e 4 = STATUS_OK
                        then [Write 4 (balance @ replicate (16 - length balance) CHR '' '')
                                (block_write e 4)]
                        else [])
                   @ [HaltA, StopCrypto1, Delay 2000]))"
proof (cases "PICC_IsNewCardPresent e \<and> PICC_ReadCardSerial e")
  case False
  then show ?thesis by (auto simp: top_up_loop_def)
next
  case True
  let ?s0 = "println (antenna_bars @ '' Card detected!'') s"
  have s0: "tag ?s0 = tag s" "hw ?s0 = hw s" by (simp_all add: device_defs)
  note p = plate_prompt_result [OF length_uninitialised, of "carPlateBuff_stack e" input ?s0]
  show ?thesis
  proof (cases "plate_prompt (uninitialised (carPlateBuff_stack e)) input ?s0")
    case (Reading s1)
    with p s0 True show ?thesis by (simp add: top_up_loop_def)
  next
    case plate_ok: (Accepted carPlateBuff input1 s1)
    with p s0 obtain plate where s1: "tag s1 = tag s" "hw s1 = hw s"
      and plate: "length plate = 7" "carPlateBuff = plate @ replicate 9 CHR '' ''"
      by auto
    note b = balance_prompt_result [OF length_uninitialised, of "balanceBuff_stack e" input1 s1]
    show ?thesis
    proof (cases "balance_prompt (uninitialised (balanceBuff_stack e)) input1 s1")
      case (Reading s2)
      with b s1 True plate_ok show ?thesis by (simp add: top_up_loop_def)
    next
      case balance_ok: (Accepted balanceBuff input2 s2)
      with b s1 obtain balance where s2: "tag s2 = tag s" "hw s2 = hw s"
        and balance: "0 < length balance" "length balance \<le> 16"
          "balanceBuff = balance @ replicate (16 - length balance) CHR '' ''"
        by auto
      let ?s' = "delay 2000 (PCD_StopCrypto1 (PICC_HaltA
                (println (''--------------------------'' @ [CHR 0x0A])
                (println (arrows_button @ '' Please remove the card to write again.'')
                (println (c_str (balanceBuff @ after_balanceBuff e))
                (print '': '' (print (dec_nat 4) (print (check_mark @ '' Balance written to block '')
                (println (c_str (carPlateBuff @ after_carPlateBuff e))
                (print '': '' (print (dec_nat 2) (print (check_mark @ '' Car Plate written to block '')
                (println []
                  (writeBytesToBlock (GetStatusCodeName e) (block_auth e 4) (block_write e 4) 4 balanceBuff
                    (writeBytesToBlock (GetStatusCodeName e) (block_auth e 2) (block_write e 2) 2
                          carPlateBuff s2)))))))))))))))"
      have calls: "hw ?s' = hw s
                   @ Authenticate 2 (block_auth e 2)
                     # (if block_auth e 2 = STATUS_OK
                        then [Write 2 (plate @ replicate 9 CHR '' '') (block_write e 2)] else [])
                   @ Authenticate 4 (block_auth e 4)
                     # (if block_auth e 4 = STATUS_OK
                        then [Write 4 (balance @ replicate (16 - length balance) CHR '' '')
                                (block_write e 4)]
                        else [])
                   @ [HaltA, StopCrypto1, Delay 2000]"
        using plate balance s2 by (simp add: hw_simps hw_writeBytesToBlock)
      have loop: "top_up_loop e input s = Returned ?s' input2"
        using True plate_ok balance_ok by (simp add: top_up_loop_def Let_def)
      have "\<exists>plate balance input1 s1 input2 s2.
              length plate = 7 \<and> 0 < length balance \<and> length balance \<le> 16
              \<and> plate_prompt (uninitialised (carPlateBuff_stack e)) input ?s0
                   = Accepted (plate @ replicate 9 CHR '' '') input1 s1
              \<and> balance_prompt (uninitialised (balanceBuff_stack e)) input1 s1
                   = Accepted (balance @ replicate (16 - length balance) CHR '' '') input2 s2
              \<and> hw ?s' = hw s
                   @ Authenticate 2 (block_auth e 2)
                     # (if block_auth e 2 = STATUS_OK
                        then [Write 2 (plate @ replicate 9 CHR '' '') (block_write e 2)] else [])
                   @ Authenticate 4 (block_auth e 4)
                     # (if block_auth e 4 = STATUS_OK
                        then [Write 4 (balance @ replicate (16 - length balance) CHR '' '')
                                (block_write e 4)]
                        else [])
                   @ [HaltA, StopCrypto1, Delay 2000]"
        using plate(1) balance(1,2) plate_ok [unfolded plate(2)] balance_ok [unfolded balance(3)] calls
        by blast
      then show ?thesis
        unfolding loop by simp
    qed
  qed
qed

text \<open>
  What a read leaves, and what \<open>flushSerial\<close> leaves, is the end of the input they were
  given: a new pass of a prompt loop reads from what was still to come.
\<close>

lemma readBytesUntil_from_rest:
  "readBytesUntil_from index terminator buffer len input = Some (n, b, rest)
     \<Longrightarrow> \<exists>pre. input = pre @ rest"
proof (induction input arbitrary: index buffer)
  case Nil
  then show ?case by (simp split: if_splits)
next
  case (Cons ev input)
  show ?case
  proof (cases "index < len")
    case False
    with Cons.prems show ?thesis by simp
  next
    case True
    show ?thesis
    proof (cases ev)
      case Timeout
      with Cons.prems True have "rest = input" by simp
      then have "ev # input = [ev] @ rest" by simp
      then show ?thesis by blast
    next
      case Wait
      with Cons.prems True
      have "readBytesUntil_from index terminator buffer len input = Some (n, b, rest)" by simp
      from Cons.IH [OF this] obtain pre where "input = pre @ rest" ..
      then have "ev # input = (ev # pre) @ rest" by simp
      then show ?thesis by blast
    next
      case (Byte c)
      show ?thesis
      proof (cases "c = terminator")
        case True
        with Cons.prems Byte \<open>index < len\<close> have "rest = input" by simp
        then have "ev # input = [ev] @ rest" by simp
        then show ?thesis by blast
      next
        case False
        with Cons.prems Byte True
        have "readBytesUntil_from (Suc index) terminator (buffer[index := c]) len input
                = Some (n, b, rest)" by simp
        from Cons.IH [OF this] obtain pre where "input = pre @ rest" ..
        then have "ev # input = (ev # pre) @ rest" by simp
        then show ?thesis by blast
      qed
    qed
  qed
qed

lemma flushSerial_rest: "\<exists>pre. input = pre @ flushSerial input"
proof (induction input rule: flushSerial.induct)
  case (1 c rest)
  then obtain pre where "rest = pre @ flushSerial rest" ..
  then have "Byte c # rest = (Byte c # pre) @ flushSerial (Byte c # rest)" by simp
  then show ?case by blast
qed simp_all

lemma reprompt_rest:
  assumes "readBytesUntil terminator buffer 16 input = Some (n, b, rest)"
  shows "\<exists>pre. input = pre @ flushSerial rest"
proof -
  from assms obtain p1 where "input = p1 @ rest"
    using readBytesUntil_from_rest [of 0 terminator buffer 16 input n b rest]
    by (auto simp: readBytesUntil_def)
  moreover obtain p2 where "rest = p2 @ flushSerial rest"
    using flushSerial_rest [of rest] ..
  ultimately have "input = (p1 @ p2) @ flushSerial rest" by simp
  then show ?thesis by blast
qed

lemma plate_prompt_accepted:
  "plate_prompt carPlateBuff input s = Accepted pbuf prest ps \<Longrightarrow>
     \<exists>pre input0 b0 raw.
        input = pre @ input0
      \<and> readBytesUntil CHR ''#'' b0 16 input0 = Some (7, raw, prest)
      \<and> pbuf = padBuffer raw 7"
proof (induction carPlateBuff input s rule: plate_prompt.induct)
  case (1 carPlateBuff input s)
  show ?case
  proof (cases "readBytesUntil CHR ''#'' carPlateBuff 16 input")
    case None
    with "1.prems" show ?thesis by (simp add: plate_prompt_step(1))
  next
    case (Some r)
    obtain len buf rest where r: "r = (len, buf, rest)" by (cases r) auto
    from Some r have rd: "readBytesUntil CHR ''#'' carPlateBuff 16 input = Some (len, buf, rest)"
      by simp
    show ?thesis
    proof (cases "len = 7")
      case True
      with rd "1.prems" have "pbuf = padBuffer buf 7" "prest = rest"
        by (simp_all add: plate_prompt_step(2))
      with rd True have "input = [] @ input
        \<and> readBytesUntil CHR ''#'' carPlateBuff 16 input = Some (7, buf, prest)
        \<and> pbuf = padBuffer buf 7" by simp
      then show ?thesis by blast
    next
      case False
      from "1.prems" have "plate_prompt buf (flushSerial rest)
                             (plate_rejected len (println plate_prompt_text s))
                           = Accepted pbuf prest ps"
        by (simp add: plate_prompt_step(3) [OF rd False])
      from "1.IH" [OF refl Some r [symmetric] refl False this]
      obtain pre input0 b0 raw where a: "flushSerial rest = pre @ input0"
        "readBytesUntil CHR ''#'' b0 16 input0 = Some (7, raw, prest)" "pbuf = padBuffer raw 7"
        by blast
      from reprompt_rest [OF rd] obtain p where "input = p @ flushSerial rest" ..
      with a(1) have "input = (p @ pre) @ input0" by simp
      with a(2,3) show ?thesis by blast
    qed
  qed
qed

lemma balance_prompt_accepted:
  "balance_prompt balanceBuff input s = Accepted bbuf brest bs \<Longrightarrow>
     \<exists>pre input0 b0 n raw.
        input = pre @ input0
      \<and> readBytesUntil CHR ''#'' b0 16 input0 = Some (n, raw, brest)
      \<and> 0 < n \<and> n \<le> 16
      \<and> bbuf = padBuffer raw n"
proof (induction balanceBuff input s rule: balance_prompt.induct)
  case (1 balanceBuff input s)
  show ?case
  proof (cases "readBytesUntil CHR ''#'' balanceBuff 16 input")
    case None
    with "1.prems" show ?thesis by (simp add: balance_prompt_step(1))
  next
    case (Some r)
    obtain len buf rest where r: "r = (len, buf, rest)" by (cases r) auto
    from Some r have rd: "readBytesUntil CHR ''#'' balanceBuff 16 input = Some (len, buf, rest)"
      by simp
    show ?thesis
    proof (cases "0 < len \<and> len \<le> 16")
      case True
      with rd "1.prems" have "bbuf = padBuffer buf len" "brest = rest"
        by (simp_all add: balance_prompt_step(2))
      with rd True have "input = [] @ input
        \<and> readBytesUntil CHR ''#'' balanceBuff 16 input = Some (len, buf, brest)
        \<and> 0 < len \<and> len \<le> 16
        \<and> bbuf = padBuffer buf len" by simp
      then show ?thesis by blast
    next
      case False
      from "1.prems" have "balance_prompt buf (flushSerial rest)
                             (balance_rejected (println balance_prompt_text s))
                           = Accepted bbuf brest bs"
        by (simp add: balance_prompt_step(3) [OF rd False])
      from "1.IH" [OF refl Some r [symmetric] refl False this]
      obtain pre input0 b0 n raw where a: "flushSerial rest = pre @ input0"
        "readBytesUntil CHR ''#'' b0 16 input0 = Some (n, raw, brest)" "0 < n" "n \<le> 16"
        "bbuf = padBuffer raw n"
        by blast
      from reprompt_rest [OF rd] obtain p where "input = p @ flushSerial rest" ..
      with a(1) have "input = (p @ pre) @ input0" by simp
      with a(2-) show ?thesis by blast
    qed
  qed
qed


text \<open>
  C8. One pass of a prompt loop: \<open>readBytesUntil\<close> stores at most 16 bytes. The plate
  prompt leaves its loop with the padded buffer when exactly 7 bytes were stored; for
  any other number the rejection is printed, \<open>flushSerial\<close> leaves no byte to read, and
  the same prompt loop is entered again (it prints the same prompt), with the tag and
  the record of reader calls as they were. The balance prompt leaves its loop with the
  padded buffer when at least one byte was stored, and takes its rejection path in the
  same way when none was. A buffer that a prompt loop is left with is always that of a
  read of the input still to come which stored 7 bytes (plate), or 1 to 16 bytes
  (balance). For the whole of \<open>loop\<close>: while it is inside a prompt loop the tag is
  unchanged and no reader call was made; when it has returned, either it made none (no
  card), or both prompt loops were left with an accepted buffer, and the calls are the
  two authentications with, where they succeeded, the write of the accepted plate (7
  bytes and 9 spaces) to block 2 and of the accepted balance (1 to 16 bytes, padded with
  spaces to 16) to block 4.
\<close>

theorem plate_needs_seven_characters:
  "(readBytesUntil CHR ''#'' buffer 16 input = Some (len, buf, rest) \<longrightarrow>
       len \<le> 16
     \<and> (len = 7 \<longrightarrow>
           plate_prompt buffer input s
             = Accepted (padBuffer buf 7) rest (println plate_prompt_text s))
     \<and> (len \<noteq> 7 \<longrightarrow>
           plate_prompt buffer input s
             = plate_prompt buf (flushSerial rest) (plate_rejected len (println plate_prompt_text s))
           \<and> \<not> available (flushSerial rest)
           \<and> tag (plate_rejected len (println plate_prompt_text s)) = tag s
           \<and> hw (plate_rejected len (println plate_prompt_text s)) = hw s)
     \<and> (0 < len \<longrightarrow>
           balance_prompt buffer input s
             = Accepted (padBuffer buf len) rest (println balance_prompt_text s))
     \<and> (len = 0 \<longrightarrow>
           balance_prompt buffer input s
             = balance_prompt buf (flushSerial rest) (balance_rejected (println balance_prompt_text s))
           \<and> \<not> available (flushSerial rest)
           \<and> tag (balance_rejected (println balance_prompt_text s)) = tag s
           \<and> hw (balance_rejected (println balance_prompt_text s)) = hw s))
   \<and> (plate_prompt buffer input s = Accepted accepted left s1 \<longrightarrow>
         (\<exists>before input0 b0 raw.
             input = before @ input0
           \<and> readBytesUntil CHR ''#'' b0 16 input0 = Some (7, raw, left)
           \<and> accepted = padBuffer raw 7))
   \<and> (balance_prompt buffer input s = Accepted accepted left s1 \<longrightarrow>
         (\<exists>before input0 b0 n raw.
             input = before @ input0
           \<and> readBytesUntil CHR ''#'' b0 16 input0 = Some (n, raw, left)
           \<and> 0 < n \<and> n \<le> 16
           \<and> accepted = padBuffer raw n))
   \<and> (\<not> returned (top_up_loop e input' s')
        \<longrightarrow> tag (loop_device (top_up_loop e input' s')) = tag s'
            \<and> hw (loop_device (top_up_loop e input' s')) = hw s')
   \<and> (returned (top_up_loop e input' s')
        \<longrightarrow> (tag (loop_device (top_up_loop e input' s')) = tag s'
               \<and> hw (loop_device (top_up_loop e input' s')) = hw s')
            \<or> (\<exists>plate balance input1 s1 input2 s2.
                  length plate = 7 \<and> 0 < length balance \<and> length balance \<le> 16
                  \<and> plate_prompt (uninitialised (carPlateBuff_stack e)) input'
                         (println (antenna_bars @ '' Card detected!'') s')
                       = Accepted (plate @ replicate 9 CHR '' '') input1 s1
                  \<and> balance_prompt (uninitialised (balanceBuff_stack e)) input1 s1
                       = Accepted (balance @ replicate (16 - length balance) CHR '' '') input2 s2
                  \<and> hw (loop_device (top_up_loop e input' s'))
                      = hw s'
                        @ Authenticate 2 (block_auth e 2)
                          # (if block_auth e 2 = STATUS_OK
                             then [Write 2 (plate @ replicate 9 CHR '' '') (block_write e 2)]
                             else [])
                        @ Authenticate 4 (block_auth e 4)
                          # (if block_auth e 4 = STATUS_OK
                             then [Write 4 (balance @ replicate (16 - length balance) CHR '' '')
                                     (block_write e 4)]
                             else [])
                        @ [HaltA, StopCrypto1, Delay 2000]))"
proof -
  have pass: "len \<le> 16
     \<and> (len = 7 \<longrightarrow>
           plate_prompt buffer input s
             = Accepted (padBuffer buf 7) rest (println plate_prompt_text s))
     \<and> (len \<noteq> 7 \<longrightarrow>
           plate_prompt buffer input s
             = plate_prompt buf (flushSerial rest) (plate_rejected len (println plate_prompt_text s))
           \<and> \<not> available (flushSerial rest)
           \<and> tag (plate_rejected len (println plate_prompt_text s)) = tag s
           \<and> hw (plate_rejected len (println plate_prompt_text s)) = hw s)
     \<and> (0 < len \<longrightarrow>
           balance_prompt buffer input s
             = Accepted (padBuffer buf len) rest (println balance_prompt_text s))
     \<and> (len = 0 \<longrightarrow>
           balance_prompt buffer input s
             = balance_prompt buf (flushSerial rest) (balance_rejected (println balance_prompt_text s))
           \<and> \<not> available (flushSerial rest)
           \<and> tag (balance_rejected (println balance_prompt_text s)) = tag s
           \<and> hw (balance_rejected (println balance_prompt_text s)) = hw s)"
    if rd: "readBytesUntil CHR ''#'' buffer 16 input = Some (len, buf, rest)"
  proof (intro conjI impI)
    show bound: "len \<le> 16" by (rule readBytesUntil_bounds(1) [OF rd])
    show "plate_prompt buffer input s
            = Accepted (padBuffer buf 7) rest (println plate_prompt_text s)" if "len = 7"
      using rd that by (simp add: plate_prompt_step(2))
    show "plate_prompt buffer input s
            = plate_prompt buf (flushSerial rest) (plate_rejected len (println plate_prompt_text s))"
      if "len \<noteq> 7"
      by (rule plate_prompt_step(3) [OF rd that])
    show "balance_prompt buffer input s
            = Accepted (padBuffer buf len) rest (println balance_prompt_text s)" if "0 < len"
      by (rule balance_prompt_step(2) [OF rd that bound])
    show "balance_prompt buffer input s
            = balance_prompt buf (flushSerial rest) (balance_rejected (println balance_prompt_text s))"
      if "len = 0"
      by (rule balance_prompt_step(3) [OF rd]) (simp add: that)
    show "\<not> available (flushSerial rest)" by (rule flushSerial_not_available)
    show "\<not> available (flushSerial rest)" by (rule flushSerial_not_available)
    show "tag (plate_rejected len (println plate_prompt_text s)) = tag s"
      by (simp add: tag_plate_rejected tag_simps)
    show "hw (plate_rejected len (println plate_prompt_text s)) = hw s"
      by (simp add: tag_plate_rejected hw_simps)
    show "tag (balance_rejected (println balance_prompt_text s)) = tag s"
      by (simp add: tag_balance_rejected tag_simps)
    show "hw (balance_rejected (println balance_prompt_text s)) = hw s"
      by (simp add: tag_balance_rejected hw_simps)
  qed
  have plate: "\<exists>before input0 b0 raw.
             input = before @ input0
           \<and> readBytesUntil CHR ''#'' b0 16 input0 = Some (7, raw, left)
           \<and> accepted = padBuffer raw 7"
    if "plate_prompt buffer input s = Accepted accepted left s1"
    by (rule plate_prompt_accepted [OF that])
  have balance: "\<exists>before input0 b0 n raw.
             input = before @ input0
           \<and> readBytesUntil CHR ''#'' b0 16 input0 = Some (n, raw, left)
           \<and> 0 < n \<and> n \<le> 16
           \<and> accepted = padBuffer raw n"
    if "balance_prompt buffer input s = Accepted accepted left s1"
    by (rule balance_prompt_accepted [OF that])
  note whole = top_up_loop_result [where e = e and input = input' and s = s']
  have inside: "tag (loop_device (top_up_loop e input' s')) = tag s'
            \<and> hw (loop_device (top_up_loop e input' s')) = hw s'"
    if "\<not> returned (top_up_loop e input' s')"
    using whole that by (cases "top_up_loop e input' s'") simp_all
  have after: "(tag (loop_device (top_up_loop e input' s')) = tag s'
               \<and> hw (loop_device (top_up_loop e input' s')) = hw s')
            \<or> (\<exists>plate balance input1 s1 input2 s2.
                  length plate = 7 \<and> 0 < length balance \<and> length balance \<le> 16
                  \<and> plate_prompt (uninitialised (carPlateBuff_stack e)) input'
                         (println (antenna_bars @ '' Card detected!'') s')
                       = Accepted (plate @ replicate 9 CHR '' '') input1 s1
                  \<and> balance_prompt (uninitialised (balanceBuff_stack e)) input1 s1
                       = Accepted (balance @ replicate (16 - length balance) CHR '' '') input2 s2
                  \<and> hw (loop_device (top_up_loop e input' s'))
                      = hw s'
                        @ Authenticate 2 (block_auth e 2)
                          # (if block_auth e 2 = STATUS_OK
                             then [Write 2 (plate @ replicate 9 CHR '' '') (block_write e 2)]
                             else [])
                        @ Authenticate 4 (block_auth e 4)
                          # (if block_auth e 4 = STATUS_OK
                             then [Write 4 (balance @ replicate (16 - length balance) CHR '' '')
                                     (block_write e 4)]
                             else [])
                        @ [HaltA, StopCrypto1, Delay 2000])"
    if "returned (top_up_loop e input' s')"
    using whole that by (cases "top_up_loop e input' s'") simp_all
  show ?thesis
    apply (rule conjI, rule impI, rule pass, assumption)
    apply (rule conjI, rule impI, rule plate, assumption)
    apply (rule conjI, rule impI, rule balance, assumption)
    apply (rule conjI, rule impI, rule inside, assumption)
    apply (rule impI, rule after, assumption)
    done
qed


lemma tag_writeBytesToBlock:
  "tag (writeBytesToBlock name a w blk buff s)
     = (if a = STATUS_OK \<and> w = STATUS_OK then (tag s)(blk := take 16 buff) else tag s)"
  by (simp add: writeBytesToBlock_def device_defs Let_def)

lemma scenario_E_reads:
  "readBytesUntil CHR ''#'' (uninitialised (\<lambda>_. NUL)) 16 scenario_E
     = Some (6, ''RAG234'' @ replicate 10 NUL, Wait # map Byte ''RAB123C#1000#'')"
  "readBytesUntil CHR ''#'' (''RAG234'' @ replicate 10 NUL) 16 (Wait # map Byte ''RAB123C#1000#'')
     = Some (7, ''RAB123C'' @ replicate 9 NUL, map Byte ''1000#'')"
  "readBytesUntil CHR ''#'' (uninitialised (\<lambda>_. NUL)) 16 (map Byte ''1000#'')
     = Some (4, ''1000'' @ replicate 12 NUL, [])"
  "padBuffer (''RAB123C'' @ replicate 9 NUL) 7 = ''RAB123C         ''"
  "padBuffer (''1000'' @ replicate 12 NUL) 4 = ''1000            ''"
  by code_simp+


lemma scenario_E_result:
  "top_up_loop operator_env scenario_E (top_up_setup blank_tag)
     = Returned
         (delay 2000 (PCD_StopCrypto1 (PICC_HaltA
           (println (''--------------------------'' @ [CHR 0x0A])
           (println (arrows_button @ '' Please remove the card to write again.'')
           (println (c_str ''1000            '')
           (print '': '' (print (dec_nat 4) (print (check_mark @ '' Balance written to block '')
           (println (c_str ''RAB123C         '')
           (print '': '' (print (dec_nat 2) (print (check_mark @ '' Car Plate written to block '')
           (println []
             (writeBytesToBlock (\<lambda>_. ''Error'') STATUS_OK STATUS_OK 4 ''1000            ''
               (writeBytesToBlock (\<lambda>_. ''Error'') STATUS_OK STATUS_OK 2 ''RAB123C         ''
                 (println balance_prompt_text
                   (println plate_prompt_text
                     (plate_rejected 6
                       (println plate_prompt_text
                         (println (antenna_bars @ '' Card detected!'')
                           (top_up_setup blank_tag))))))))))))))))))))))
         []"
proof -
  let ?s0 = "println (antenna_bars @ '' Card detected!'') (top_up_setup blank_tag)"
  have "plate_prompt (uninitialised (\<lambda>_. NUL)) scenario_E ?s0
          = plate_prompt (''RAG234'' @ replicate 10 NUL) (flushSerial (Wait # map Byte ''RAB123C#1000#''))
              (plate_rejected 6 (println plate_prompt_text ?s0))"
    by (rule plate_prompt_step(3) [OF scenario_E_reads(1)]) simp
  also have "flushSerial (Wait # map Byte ''RAB123C#1000#'') = Wait # map Byte ''RAB123C#1000#''"
    by simp
  also have "plate_prompt (''RAG234'' @ replicate 10 NUL) (Wait # map Byte ''RAB123C#1000#'')
              (plate_rejected 6 (println plate_prompt_text ?s0))
      = Accepted (padBuffer (''RAB123C'' @ replicate 9 NUL) 7) (map Byte ''1000#'')
          (println plate_prompt_text (plate_rejected 6 (println plate_prompt_text ?s0)))"
    by (rule plate_prompt_step(2) [OF scenario_E_reads(2)])
  finally have plate: "plate_prompt (uninitialised (\<lambda>_. NUL)) scenario_E ?s0
      = Accepted ''RAB123C         '' (map Byte ''1000#'')
          (println plate_prompt_text (plate_rejected 6 (println plate_prompt_text ?s0)))"
    unfolding scenario_E_reads(4) .
  have "balance_prompt (uninitialised (\<lambda>_. NUL)) (map Byte ''1000#'') s
          = Accepted (padBuffer (''1000'' @ replicate 12 NUL) 4) [] (println balance_prompt_text s)" for s
    by (rule balance_prompt_step(2) [OF scenario_E_reads(3)]) simp_all
  then have balance: "balance_prompt (uninitialised (\<lambda>_. NUL)) (map Byte ''1000#'') s
                   = Accepted ''1000            '' [] (println balance_prompt_text s)" for s
    unfolding scenario_E_reads(5) .
  from balance
  have balance': "balance_prompt (uninitialised (\<lambda>_. NUL))
                    [Byte CHR ''1'', Byte CHR ''0'', Byte CHR ''0'', Byte CHR ''0'', Byte CHR ''#''] s
                   = Accepted ''1000            '' [] (println balance_prompt_text s)" for s
    by simp
  show ?thesis
    by (simp add: top_up_loop_def operator_env_def plate balance' Let_def)
qed

lemma empty_balance_reads:
  "readBytesUntil CHR ''#'' (uninitialised (\<lambda>_. NUL)) 16 empty_balance
     = Some (7, ''RAB123C'' @ replicate 9 NUL, [Byte CHR ''#''])"
  "readBytesUntil CHR ''#'' (uninitialised (\<lambda>_. NUL)) 16 [Byte CHR ''#'']
     = Some (0, uninitialised (\<lambda>_. NUL), [])"
  "readBytesUntil CHR ''#'' (uninitialised (\<lambda>_. NUL)) 16 [] = None"
  by code_simp+

lemma empty_balance_result:
  "top_up_loop operator_env empty_balance (top_up_setup blank_tag)
     = Prompting
         (println balance_prompt_text
           (balance_rejected
             (println balance_prompt_text
               (println plate_prompt_text
                 (println (antenna_bars @ '' Card detected!'') (top_up_setup blank_tag))))))"
proof -
  let ?s0 = "println (antenna_bars @ '' Card detected!'') (top_up_setup blank_tag)"
  have "plate_prompt (uninitialised (\<lambda>_. NUL)) empty_balance ?s0
      = Accepted (padBuffer (''RAB123C'' @ replicate 9 NUL) 7) [Byte CHR ''#'']
          (println plate_prompt_text ?s0)"
    by (rule plate_prompt_step(2) [OF empty_balance_reads(1)])
  then have plate: "plate_prompt (uninitialised (\<lambda>_. NUL)) empty_balance ?s0
      = Accepted ''RAB123C         '' [Byte CHR ''#''] (println plate_prompt_text ?s0)"
    unfolding scenario_E_reads(4) .
  have "balance_prompt (uninitialised (\<lambda>_. NUL)) [Byte CHR ''#''] s
          = balance_prompt (uninitialised (\<lambda>_. NUL)) (flushSerial [])
              (balance_rejected (println balance_prompt_text s))" for s
    by (rule balance_prompt_step(3) [OF empty_balance_reads(2)]) simp
  also have "flushSerial [] = ([] :: serial_event list)" by simp
  also have "balance_prompt (uninitialised (\<lambda>_. NUL)) [] s
          = Reading (println balance_prompt_text s)" for s
    by (rule balance_prompt_step(1) [OF empty_balance_reads(3)])
  finally have balance: "balance_prompt (uninitialised (\<lambda>_. NUL)) [Byte CHR ''#''] s
          = Reading (println balance_prompt_text
                      (balance_rejected (println balance_prompt_text s)))" for s .
  show ?thesis
    by (simp add: top_up_loop_def operator_env_def plate balance Let_def)
qed

theorem plate_needs_seven_characters_witness:
  "readBytesUntil CHR ''#'' (uninitialised (\<lambda>_. NUL)) 16 scenario_E
     = Some (6, ''RAG234'' @ replicate 10 NUL, Wait # map Byte ''RAB123C#1000#'')
   \<and> plate_prompt (uninitialised (\<lambda>_. NUL)) scenario_E (top_up_setup blank_tag)
       = plate_prompt (''RAG234'' @ replicate 10 NUL)
           (flushSerial (Wait # map Byte ''RAB123C#1000#''))
           (plate_rejected 6 (println plate_prompt_text (top_up_setup blank_tag)))
   \<and> readBytesUntil CHR ''#'' (''RAG234'' @ replicate 10 NUL) 16
         (Wait # map Byte ''RAB123C#1000#'')
       = Some (7, ''RAB123C'' @ replicate 9 NUL, map Byte ''1000#'')
   \<and> plate_prompt (''RAG234'' @ replicate 10 NUL) (Wait # map Byte ''RAB123C#1000#'')
         (top_up_setup blank_tag)
       = Accepted ''RAB123C         '' (map Byte ''1000#'')
           (println plate_prompt_text (top_up_setup blank_tag))
   \<and> readBytesUntil CHR ''#'' (uninitialised (\<lambda>_. NUL)) 16 [Byte CHR ''#'']
       = Some (0, uninitialised (\<lambda>_. NUL), [])
   \<and> balance_prompt (uninitialised (\<lambda>_. NUL)) [Byte CHR ''#''] (top_up_setup blank_tag)
       = balance_prompt (uninitialised (\<lambda>_. NUL)) (flushSerial [])
           (balance_rejected (println balance_prompt_text (top_up_setup blank_tag)))
   \<and> readBytesUntil CHR ''#'' (uninitialised (\<lambda>_. NUL)) 16 (map Byte ''1000#'')
       = Some (4, ''1000'' @ replicate 12 NUL, [])
   \<and> balance_prompt (uninitialised (\<lambda>_. NUL)) (map Byte ''1000#'') (top_up_setup blank_tag)
       = Accepted ''1000            '' [] (println balance_prompt_text (top_up_setup blank_tag))
   \<and> \<not> returned (top_up_loop operator_env empty_balance (top_up_setup blank_tag))
   \<and> tag (loop_device (top_up_loop operator_env empty_balance (top_up_setup blank_tag)))
       = blank_tag
   \<and> hw (loop_device (top_up_loop operator_env empty_balance (top_up_setup blank_tag))) = []
   \<and> returned (top_up_loop operator_env scenario_E (top_up_setup blank_tag))
   \<and> hw (loop_device (top_up_loop operator_env scenario_E (top_up_setup blank_tag)))
       = [Authenticate 2 STATUS_OK, Write 2 ''RAB123C         '' STATUS_OK,
          Authenticate 4 STATUS_OK, Write 4 ''1000            '' STATUS_OK,
          HaltA, StopCrypto1, Delay 2000]
   \<and> tag (loop_device (top_up_loop operator_env scenario_E (top_up_setup blank_tag))) 2
       = ''RAB123C         ''
   \<and> tag (loop_device (top_up_loop operator_env scenario_E (top_up_setup blank_tag))) 4
       = ''1000            ''
   \<and> (\<exists>before input0 b0 raw.
          Wait # map Byte ''RAB123C#1000#'' = before @ input0
        \<and> readBytesUntil CHR ''#'' b0 16 input0 = Some (7, raw, map Byte ''1000#'')
        \<and> ''RAB123C         '' = padBuffer raw 7)
   \<and> (\<exists>before input0 b0 n raw.
          map Byte ''1000#'' = before @ input0
        \<and> readBytesUntil CHR ''#'' b0 16 input0 = Some (n, raw, [])
        \<and> 0 < n \<and> n \<le> 16
        \<and> ''1000            '' = padBuffer raw n)"
proof -
  have start: "tag (top_up_setup blank_tag) = blank_tag" "hw (top_up_setup blank_tag) = []"
    by (simp_all add: top_up_setup_def device_defs)
  note six = plate_needs_seven_characters
    [where buffer = "uninitialised (\<lambda>_. NUL)" and input = scenario_E and len = 6
       and buf = "''RAG234'' @ replicate 10 NUL" and rest = "Wait # map Byte ''RAB123C#1000#''"
       and s = "top_up_setup blank_tag"
       and e = operator_env and input' = empty_balance and s' = "top_up_setup blank_tag",
     THEN conjunct1, THEN mp, OF scenario_E_reads(1)]
  note seven = plate_needs_seven_characters
    [where buffer = "''RAG234'' @ replicate 10 NUL" and input = "Wait # map Byte ''RAB123C#1000#''"
       and len = 7 and buf = "''RAB123C'' @ replicate 9 NUL" and rest = "map Byte ''1000#''"
       and s = "top_up_setup blank_tag",
     THEN conjunct1, THEN mp, OF scenario_E_reads(2)]
  note none = plate_needs_seven_characters
    [where buffer = "uninitialised (\<lambda>_. NUL)" and input = "[Byte CHR ''#'']" and len = 0
       and buf = "uninitialised (\<lambda>_. NUL)" and rest = "[]"
       and s = "top_up_setup blank_tag",
     THEN conjunct1, THEN mp, OF empty_balance_reads(2)]
  note four = plate_needs_seven_characters
    [where buffer = "uninitialised (\<lambda>_. NUL)" and input = "map Byte ''1000#''" and len = 4
       and buf = "''1000'' @ replicate 12 NUL" and rest = "[]"
       and s = "top_up_setup blank_tag",
     THEN conjunct1, THEN mp, OF scenario_E_reads(3)]
  have rejected:
    "plate_prompt (uninitialised (\<lambda>_. NUL)) scenario_E (top_up_setup blank_tag)
       = plate_prompt (''RAG234'' @ replicate 10 NUL)
           (flushSerial (Wait # map Byte ''RAB123C#1000#''))
           (plate_rejected 6 (println plate_prompt_text (top_up_setup blank_tag)))"
    using six by simp
  have plate:
    "plate_prompt (''RAG234'' @ replicate 10 NUL) (Wait # map Byte ''RAB123C#1000#'')
         (top_up_setup blank_tag)
       = Accepted ''RAB123C         '' (map Byte ''1000#'')
           (println plate_prompt_text (top_up_setup blank_tag))"
    using seven unfolding scenario_E_reads(4) by simp
  have empty:
    "balance_prompt (uninitialised (\<lambda>_. NUL)) [Byte CHR ''#''] (top_up_setup blank_tag)
       = balance_prompt (uninitialised (\<lambda>_. NUL)) (flushSerial [])
           (balance_rejected (println balance_prompt_text (top_up_setup blank_tag)))"
    using none by simp
  have balance:
    "balance_prompt (uninitialised (\<lambda>_. NUL)) (map Byte ''1000#'') (top_up_setup blank_tag)
       = Accepted ''1000            '' [] (println balance_prompt_text (top_up_setup blank_tag))"
    using four unfolding scenario_E_reads(5) by simp
  note inside = plate_needs_seven_characters
    [where e = operator_env and input' = empty_balance and s' = "top_up_setup blank_tag",
     THEN conjunct2, THEN conjunct2, THEN conjunct2, THEN conjunct1]
  have waiting: "\<not> returned (top_up_loop operator_env empty_balance (top_up_setup blank_tag))"
    by (simp add: empty_balance_result)
  from inside waiting start
  have untouched:
    "tag (loop_device (top_up_loop operator_env empty_balance (top_up_setup blank_tag)))
       = blank_tag"
    "hw (loop_device (top_up_loop operator_env empty_balance (top_up_setup blank_tag))) = []"
    by simp_all
  have finished: "returned (top_up_loop operator_env scenario_E (top_up_setup blank_tag))"
    by (simp add: scenario_E_result)
  have blocks:
    "tag (loop_device (top_up_loop operator_env scenario_E (top_up_setup blank_tag))) 2
       = ''RAB123C         ''"
    "tag (loop_device (top_up_loop operator_env scenario_E (top_up_setup blank_tag))) 4
       = ''1000            ''"
    by (simp_all add: scenario_E_result tag_simps tag_writeBytesToBlock)
  have calls: "hw (loop_device (top_up_loop operator_env scenario_E (top_up_setup blank_tag)))
       = [Authenticate 2 STATUS_OK, Write 2 ''RAB123C         '' STATUS_OK,
          Authenticate 4 STATUS_OK, Write 4 ''1000            '' STATUS_OK,
          HaltA, StopCrypto1, Delay 2000]"
    by (simp add: scenario_E_result hw_simps hw_writeBytesToBlock tag_plate_rejected start)
  note plate_read = plate_needs_seven_characters
    [where buffer = "''RAG234'' @ replicate 10 NUL" and input = "Wait # map Byte ''RAB123C#1000#''"
       and s = "top_up_setup blank_tag" and accepted = "''RAB123C         ''"
       and left = "map Byte ''1000#''"
       and ?s1.0 = "println plate_prompt_text (top_up_setup blank_tag)",
     THEN conjunct2, THEN conjunct1, THEN mp, OF plate]
  note balance_read = plate_needs_seven_characters
    [where buffer = "uninitialised (\<lambda>_. NUL)" and input = "map Byte ''1000#''"
       and s = "top_up_setup blank_tag" and accepted = "''1000            ''"
       and left = "[]"
       and ?s1.0 = "println balance_prompt_text (top_up_setup blank_tag)",
     THEN conjunct2, THEN conjunct2, THEN conjunct1, THEN mp, OF balance]
  show ?thesis
    apply (rule conjI, rule scenario_E_reads(1))
    apply (rule conjI, rule rejected)
    apply (rule conjI, rule scenario_E_reads(2))
    apply (rule conjI, rule plate)
    apply (rule conjI, rule empty_balance_reads(2))
    apply (rule conjI, rule empty)
    apply (rule conjI, rule scenario_E_reads(3))
    apply (rule conjI, rule balance)
    apply (rule conjI, rule waiting)
    apply (rule conjI, rule untouched(1))
    apply (rule conjI, rule untouched(2))
    apply (rule conjI, rule finished)
    apply (rule conjI, rule calls)
    apply (rule conjI, rule blocks(1))
    apply (rule conjI, rule blocks(2))
    apply (rule conjI, rule plate_read)
    apply (rule balance_read)
    done
qed


lemma read_at_timeout: "readBytesUntil t buf 16 (Timeout # rest) = Some (0, buf, rest)"
  by (simp add: readBytesUntil_def)

text \<open>
  C10. When the timeout passes before any byte has arrived,
  \<open>readBytesUntil\<close> returns 0 bytes. In the plate prompt and in the balance prompt this
  takes the rejection path: \<open>flushSerial\<close> leaves no byte to read and the same prompt loop
  is entered again, the tag and the record of reader calls being what they were.
\<close>

theorem timeout_without_bytes_reprompts:
  "readBytesUntil CHR ''#'' buf 16 (Timeout # rest) = Some (0, buf, rest)
   \<and> plate_prompt buf (Timeout # rest) s
       = plate_prompt buf (flushSerial rest) (plate_rejected 0 (println plate_prompt_text s))
   \<and> balance_prompt buf (Timeout # rest) s
       = balance_prompt buf (flushSerial rest) (balance_rejected (println balance_prompt_text s))
   \<and> \<not> available (flushSerial rest)
   \<and> tag (plate_rejected 0 (println plate_prompt_text s)) = tag s
   \<and> hw (plate_rejected 0 (println plate_prompt_text s)) = hw s
   \<and> tag (balance_rejected (println balance_prompt_text s)) = tag s
   \<and> hw (balance_rejected (println balance_prompt_text s)) = hw s"
proof -
  have "plate_prompt buf (Timeout # rest) s
          = plate_prompt buf (flushSerial rest) (plate_rejected 0 (println plate_prompt_text s))"
    by (rule plate_prompt_step(3) [OF read_at_timeout]) simp
  moreover have "balance_prompt buf (Timeout # rest) s
          = balance_prompt buf (flushSerial rest) (balance_rejected (println balance_prompt_text s))"
    by (rule balance_prompt_step(3) [OF read_at_timeout]) simp
  ultimately show ?thesis
    by (simp add: read_at_timeout flushSerial_not_available tag_plate_rejected
        tag_balance_rejected tag_simps hw_simps)
qed

theorem timeout_without_bytes_reprompts_witness:
  "readBytesUntil CHR ''#'' (uninitialised (\<lambda>_. NUL)) 16 [Timeout, Timeout]
     = Some (0, uninitialised (\<lambda>_. NUL), [Timeout])
   \<and> plate_prompt (uninitialised (\<lambda>_. NUL)) [Timeout, Timeout] (top_up_setup blank_tag)
       = Reading (println plate_prompt_text
           (plate_rejected 0 (println plate_prompt_text
             (plate_rejected 0 (println plate_prompt_text (top_up_setup blank_tag))))))
   \<and> tag (prompt_device (plate_prompt (uninitialised (\<lambda>_. NUL)) [Timeout, Timeout]
                             (top_up_setup blank_tag))) = blank_tag
   \<and> hw (prompt_device (plate_prompt (uninitialised (\<lambda>_. NUL)) [Timeout, Timeout]
                            (top_up_setup blank_tag))) = []"
proof -
  have start: "tag (top_up_setup blank_tag) = blank_tag" "hw (top_up_setup blank_tag) = []"
    by (simp_all add: top_up_setup_def device_defs)
  have ended: "readBytesUntil CHR ''#'' (uninitialised (\<lambda>_. NUL)) 16 [] = None"
    by (simp add: readBytesUntil_def)
  note first = timeout_without_bytes_reprompts
    [of "uninitialised (\<lambda>_. NUL)" "[Timeout]" "top_up_setup blank_tag"]
  note second = timeout_without_bytes_reprompts
    [of "uninitialised (\<lambda>_. NUL)" "[]"
      "plate_rejected 0 (println plate_prompt_text (top_up_setup blank_tag))"]
  have "plate_prompt (uninitialised (\<lambda>_. NUL)) [Timeout, Timeout] (top_up_setup blank_tag)
       = Reading (println plate_prompt_text
           (plate_rejected 0 (println plate_prompt_text
             (plate_rejected 0 (println plate_prompt_text (top_up_setup blank_tag))))))"
    using first second by (simp add: plate_prompt_step(1) [OF ended])
  then show ?thesis
    using first by (simp add: tag_plate_rejected tag_simps hw_simps start)
qed

lemma no_terminator_reads:
  "readBytesUntil CHR ''#'' (uninitialised (\<lambda>_. NUL)) 16 (map Byte ''RAG234H'' @ [Timeout])
     = Some (7, ''RAG234H'' @ replicate 9 NUL, [])"
  "readBytesUntil CHR ''#'' (uninitialised (\<lambda>_. NUL)) 16 no_terminator
     = Some (7, ''RAG234H'' @ replicate 9 NUL, map Byte ''1000'' @ [Timeout])"
  "readBytesUntil CHR ''#'' (uninitialised (\<lambda>_. NUL)) 16 (map Byte ''1000'' @ [Timeout])
     = Some (4, ''1000'' @ replicate 12 NUL, [])"
  "padBuffer (''RAG234H'' @ replicate 9 NUL) 7 = ''RAG234H         ''"
  "padBuffer (''1000'' @ replicate 12 NUL) 4 = ''1000            ''"
  by code_simp+

lemma no_terminator_result:
  "top_up_loop operator_env no_terminator (top_up_setup blank_tag)
     = Returned
         (delay 2000 (PCD_StopCrypto1 (PICC_HaltA
           (println (''--------------------------'' @ [CHR 0x0A])
           (println (arrows_button @ '' Please remove the card to write again.'')
           (println (c_str ''1000            '')
           (print '': '' (print (dec_nat 4) (print (check_mark @ '' Balance written to block '')
           (println (c_str ''RAG234H         '')
           (print '': '' (print (dec_nat 2) (print (check_mark @ '' Car Plate written to block '')
           (println []
             (writeBytesToBlock (\<lambda>_. ''Error'') STATUS_OK STATUS_OK 4 ''1000            ''
               (writeBytesToBlock (\<lambda>_. ''Error'') STATUS_OK STATUS_OK 2 ''RAG234H         ''
                 (println balance_prompt_text
                   (println plate_prompt_text
                     (println (antenna_bars @ '' Card detected!'')
                       (top_up_setup blank_tag))))))))))))))))))))
         []"
proof -
  let ?s0 = "println (antenna_bars @ '' Card detected!'') (top_up_setup blank_tag)"
  have "plate_prompt (uninitialised (\<lambda>_. NUL)) no_terminator ?s0
      = Accepted (padBuffer (''RAG234H'' @ replicate 9 NUL) 7) (map Byte ''1000'' @ [Timeout])
          (println plate_prompt_text ?s0)"
    by (rule plate_prompt_step(2) [OF no_terminator_reads(2)])
  then have plate: "plate_prompt (uninitialised (\<lambda>_. NUL)) no_terminator ?s0
      = Accepted ''RAG234H         '' (map Byte ''1000'' @ [Timeout]) (println plate_prompt_text ?s0)"
    unfolding no_terminator_reads(4) .
  have "balance_prompt (uninitialised (\<lambda>_. NUL)) (map Byte ''1000'' @ [Timeout]) s
          = Accepted (padBuffer (''1000'' @ replicate 12 NUL) 4) [] (println balance_prompt_text s)" for s
    by (rule balance_prompt_step(2) [OF no_terminator_reads(3)]) simp_all
  then have "balance_prompt (uninitialised (\<lambda>_. NUL)) (map Byte ''1000'' @ [Timeout]) s
                   = Accepted ''1000            '' [] (println balance_prompt_text s)" for s
    unfolding no_terminator_reads(5) .
  then have balance: "balance_prompt (uninitialised (\<lambda>_. NUL))
                    [Byte CHR ''1'', Byte CHR ''0'', Byte CHR ''0'', Byte CHR ''0'', Timeout] s
                   = Accepted ''1000            '' [] (println balance_prompt_text s)" for s
    by simp
  show ?thesis
    by (simp add: top_up_loop_def operator_env_def plate balance Let_def)
qed

text \<open>
  A timeout after 7 bytes with no terminator gives an input of 7 bytes, not of 0: the
  plate is accepted. A balance typed without terminator is accepted at the timeout in
  the same way, and both blocks are written.
\<close>

theorem timeout_after_bytes_is_accepted:
  "readBytesUntil CHR ''#'' (uninitialised (\<lambda>_. NUL)) 16 (map Byte ''RAG234H'' @ [Timeout])
     = Some (7, ''RAG234H'' @ replicate 9 NUL, [])
   \<and> returned (top_up_loop operator_env no_terminator (top_up_setup blank_tag))
   \<and> hw (loop_device (top_up_loop operator_env no_terminator (top_up_setup blank_tag)))
       = [Authenticate 2 STATUS_OK, Write 2 ''RAG234H         '' STATUS_OK,
          Authenticate 4 STATUS_OK, Write 4 ''1000            '' STATUS_OK,
          HaltA, StopCrypto1, Delay 2000]
   \<and> tag (loop_device (top_up_loop operator_env no_terminator (top_up_setup blank_tag))) 2
       = ''RAG234H         ''
   \<and> tag (loop_device (top_up_loop operator_env no_terminator (top_up_setup blank_tag))) 4
       = ''1000            ''"
proof -
  have start: "hw (top_up_setup blank_tag) = []"
    by (simp add: top_up_setup_def device_defs)
  note no_terminator_reads(1)
  moreover have "returned (top_up_loop operator_env no_terminator (top_up_setup blank_tag))"
    by (simp add: no_terminator_result)
  moreover have "hw (loop_device (top_up_loop operator_env no_terminator (top_up_setup blank_tag)))
       = [Authenticate 2 STATUS_OK, Write 2 ''RAG234H         '' STATUS_OK,
          Authenticate 4 STATUS_OK, Write 4 ''1000            '' STATUS_OK,
          HaltA, StopCrypto1, Delay 2000]"
    by (simp add: no_terminator_result hw_simps hw_writeBytesToBlock start)
  moreover have "tag (loop_device (top_up_loop operator_env no_terminator (top_up_setup blank_tag))) 2
       = ''RAG234H         ''"
    by (simp add: no_terminator_result tag_simps tag_writeBytesToBlock)
  moreover have "tag (loop_device (top_up_loop operator_env no_terminator (top_up_setup blank_tag))) 4
       = ''1000            ''"
    by (simp add: no_terminator_result tag_simps tag_writeBytesToBlock)
  ultimately show ?thesis
    by (intro conjI)
qed

end
